theory Spec2Isabelle
  imports Main
begin

section \<open>The preprocessor layer of \<^verbatim>\<open>reflection.hpp\<close>\<close>

text \<open>
  The header builds its metadata with variadic macros and requires the standard
  conforming preprocessor. A macro argument is a sequence of tokens; the arguments the
  header passes around are a member name, one of the numbers \<^verbatim>\<open>32, 31, ..., 0\<close> of
  \<^verbatim>\<open>COUNT_ARGS\<close>, or one of the macro names \<^verbatim>\<open>APPLY_MACRO_TO_EACH_n\<close> of
  \<^verbatim>\<open>APPLY_MACRO_TO_EACH\<close>. \<open>Ident []\<close> is the argument with no token in it.
\<close>

datatype token = Ident string | Num nat | APPLY_MACRO_TO_EACH_name nat

text \<open>
  A failure is always a rejection by the compiler: a \<^verbatim>\<open>static_assert\<close> that fails, with
  its message, or code that is ill-formed for another reason.
\<close>

datatype error = StaticAssertFailed string | IllFormed

text \<open>
  \<^verbatim>\<open>__VA_ARGS__\<close> spliced in front of a comma, as in \<^verbatim>\<open>COUNT_ARGS_IMPL(__VA_ARGS__, 32, ...)\<close>:
  the arguments of \<^verbatim>\<open>REFLECTABLE(x, y)\<close> are \<open>x\<close> and \<open>y\<close>; for \<^verbatim>\<open>REFLECTABLE()\<close> the
  text before the first comma is empty and is one argument without tokens.
\<close>

definition VA_ARGS :: "string list \<Rightarrow> token list" where
  "VA_ARGS names = (if names = [] then [Ident []] else map Ident names)"

text \<open>
  \<^verbatim>\<open>#define COUNT_ARGS_IMPL(_1, ..., _32, N, ...) N\<close> and
  \<^verbatim>\<open>#define GET_MACRO(_1, ..., _32, NAME, ...) NAME\<close>: the 33rd argument; fewer than 33
  arguments do not match the parameter list.
\<close>

definition COUNT_ARGS_IMPL :: "token list \<Rightarrow> error + token" where
  "COUNT_ARGS_IMPL as = (if length as < 33 then Inl IllFormed else Inr (as ! 32))"

definition GET_MACRO :: "token list \<Rightarrow> error + token" where
  "GET_MACRO as = (if length as < 33 then Inl IllFormed else Inr (as ! 32))"

definition COUNT_ARGS :: "string list \<Rightarrow> error + token" where
  "COUNT_ARGS names = COUNT_ARGS_IMPL (VA_ARGS names @
     [Num 32, Num 31, Num 30, Num 29, Num 28, Num 27, Num 26, Num 25, Num 24, Num 23,
      Num 22, Num 21, Num 20, Num 19, Num 18, Num 17, Num 16, Num 15, Num 14, Num 13,
      Num 12, Num 11, Num 10, Num 9, Num 8, Num 7, Num 6, Num 5, Num 4, Num 3, Num 2,
      Num 1, Num 0])"

text \<open>
  \<^verbatim>\<open>APPLY_MACRO_TO_EACH_1(macro, index, a)\<close> is \<^verbatim>\<open>macro(a, index)\<close>, and
  \<^verbatim>\<open>APPLY_MACRO_TO_EACH_n(macro, index, a, b, ...)\<close> is \<^verbatim>\<open>macro(a, index)\<close> followed by
  \<^verbatim>\<open>APPLY_MACRO_TO_EACH_(n-1)(macro, index + 1, b, ...)\<close>. Each of them takes exactly
  \<open>n\<close> arguments after \<open>index\<close>; there is no \<^verbatim>\<open>APPLY_MACRO_TO_EACH_0\<close>.
\<close>

fun APPLY_MACRO_TO_EACH_N :: "nat \<Rightarrow> (token \<Rightarrow> nat \<Rightarrow> 'a) \<Rightarrow> nat \<Rightarrow> token list \<Rightarrow> error + 'a list" where
  "APPLY_MACRO_TO_EACH_N (Suc 0) macro index [a] = Inr [macro a index]"
| "APPLY_MACRO_TO_EACH_N (Suc (Suc n)) macro index (a # rest) =
     (case APPLY_MACRO_TO_EACH_N (Suc n) macro (index + 1) rest of
        Inl e \<Rightarrow> Inl e
      | Inr out \<Rightarrow> Inr (macro a index # out))"
| "APPLY_MACRO_TO_EACH_N n macro index as = Inl IllFormed"

text \<open>
  \<^verbatim>\<open>APPLY_MACRO_TO_EACH(macro, ...)\<close> selects the macro with \<^verbatim>\<open>GET_MACRO\<close> and calls it
  with \<^verbatim>\<open>(macro, 0, __VA_ARGS__)\<close>. When the selected token is not one of the 32 macro
  names, the text left behind is not a declaration.
\<close>

definition APPLY_MACRO_TO_EACH :: "(token \<Rightarrow> nat \<Rightarrow> 'a) \<Rightarrow> string list \<Rightarrow> error + 'a list" where
  "APPLY_MACRO_TO_EACH macro names =
     (case GET_MACRO (VA_ARGS names @
        [APPLY_MACRO_TO_EACH_name 32, APPLY_MACRO_TO_EACH_name 31, APPLY_MACRO_TO_EACH_name 30,
         APPLY_MACRO_TO_EACH_name 29, APPLY_MACRO_TO_EACH_name 28, APPLY_MACRO_TO_EACH_name 27,
         APPLY_MACRO_TO_EACH_name 26, APPLY_MACRO_TO_EACH_name 25, APPLY_MACRO_TO_EACH_name 24,
         APPLY_MACRO_TO_EACH_name 23, APPLY_MACRO_TO_EACH_name 22, APPLY_MACRO_TO_EACH_name 21,
         APPLY_MACRO_TO_EACH_name 20, APPLY_MACRO_TO_EACH_name 19, APPLY_MACRO_TO_EACH_name 18,
         APPLY_MACRO_TO_EACH_name 17, APPLY_MACRO_TO_EACH_name 16, APPLY_MACRO_TO_EACH_name 15,
         APPLY_MACRO_TO_EACH_name 14, APPLY_MACRO_TO_EACH_name 13, APPLY_MACRO_TO_EACH_name 12,
         APPLY_MACRO_TO_EACH_name 11, APPLY_MACRO_TO_EACH_name 10, APPLY_MACRO_TO_EACH_name 9,
         APPLY_MACRO_TO_EACH_name 8, APPLY_MACRO_TO_EACH_name 7, APPLY_MACRO_TO_EACH_name 6,
         APPLY_MACRO_TO_EACH_name 5, APPLY_MACRO_TO_EACH_name 4, APPLY_MACRO_TO_EACH_name 3,
         APPLY_MACRO_TO_EACH_name 2, APPLY_MACRO_TO_EACH_name 1]) of
        Inl e \<Rightarrow> Inl e
      | Inr (APPLY_MACRO_TO_EACH_name n) \<Rightarrow> APPLY_MACRO_TO_EACH_N n macro 0 (VA_ARGS names)
      | Inr other \<Rightarrow> Inl IllFormed)"

section \<open>The generated metadata\<close>

text \<open>
  \<^verbatim>\<open>REFLECT_EACH(dataMember, index)\<close> writes the partial specialisation
  \<^verbatim>\<open>FieldData<index, Object>\<close> whose members all go through \<^verbatim>\<open>dataMember\<close>; what differs
  from one specialisation to the next is the pair below.
\<close>

record specialisation =
  index :: nat
  dataMember :: token

definition REFLECT_EACH :: "token \<Rightarrow> nat \<Rightarrow> specialisation" where
  "REFLECT_EACH a i = \<lparr>index = i, dataMember = a\<rparr>"

text \<open>
  What \<^verbatim>\<open>REFLECTABLE(...)\<close> adds to a class: the constant \<^verbatim>\<open>_reflection_fields_n\<close> and the
  specialisations of \<^verbatim>\<open>FieldData\<close>, in the order they are written.
\<close>

record reflection =
  reflection_fields_n :: int
  FieldData :: "specialisation list"

text \<open>
  A specialisation is a definition only if its \<^verbatim>\<open>dataMember\<close> is an identifier:
  \<^verbatim>\<open>decltype(std::decay_t<Object>::dataMember)\<close> with nothing after \<^verbatim>\<open>::\<close> does not parse.
  Whether the identifier names a member of the class is looked up when the
  specialisation is instantiated (see \<open>getFieldData\<close>).
\<close>

fun parses :: "specialisation \<Rightarrow> bool" where
  "parses sp = (case dataMember sp of Ident m \<Rightarrow> m \<noteq> [] | _ \<Rightarrow> False)"

text \<open>
  \<^verbatim>\<open>REFLECTABLE(...)\<close>, in the order of its text:
  \<^verbatim>\<open>static int constexpr _reflection_fields_n = COUNT_ARGS(__VA_ARGS__);\<close> needs a constant,
  then \<^verbatim>\<open>static_assert(_reflection_fields_n < 32, "...")\<close>, then the specialisations.
\<close>

definition REFLECTABLE :: "string list \<Rightarrow> error + reflection" where
  "REFLECTABLE names =
     (case COUNT_ARGS names of
        Inl e \<Rightarrow> Inl e
      | Inr (Num n) \<Rightarrow>
          if \<not> n < 32
          then Inl (StaticAssertFailed ''Reflection does not support more than 32 data members.'')
          else (case APPLY_MACRO_TO_EACH REFLECT_EACH names of
                  Inl e \<Rightarrow> Inl e
                | Inr specs \<Rightarrow>
                    if list_all parses specs
                    then Inr \<lparr>reflection_fields_n = int n, FieldData = specs\<rparr>
                    else Inl IllFormed)
      | Inr other \<Rightarrow> Inl IllFormed)"

section \<open>Objects and their types\<close>

text \<open>
  The library looks at a type in one way only: does it have the members
  \<^verbatim>\<open>REFLECTABLE\<close> adds, and if so, which data members do they name. An object is therefore
  kept together with what its class says: either a value of a type without the macro
  (\<open>Scalar\<close>, represented by the text \<^verbatim>\<open>operator<<\<close> writes for it), or an object of a class
  whose body ends with \<^verbatim>\<open>REFLECTABLE(names)\<close>, with its non-static data members in the order
  of the class and their current values. Where the source asks a question of a type
  (\<^verbatim>\<open>isReflectable<T>()\<close>), the model asks it of an object of that type.
\<close>

datatype obj = Scalar string | Class "(string \<times> obj) list" "string list"

fun members :: "obj \<Rightarrow> (string \<times> obj) list" where
  "members (Scalar t) = []"
| "members (Class ms names) = ms"

text \<open>
  A template argument \<^verbatim>\<open>T\<close> is the class with qualifiers: \<^verbatim>\<open>C\<close>, \<^verbatim>\<open>const C\<close>, \<^verbatim>\<open>C&\<close>,
  \<^verbatim>\<open>const C&\<close>, \<^verbatim>\<open>C&&\<close>, \<^verbatim>\<open>const C&&\<close>. For a reference, \<open>const_qualified\<close> is the
  constness of the type referred to.
\<close>

datatype ref_kind = NonReference | LvalueReference | RvalueReference

record qualifiers =
  const_qualified :: bool
  reference :: ref_kind

text \<open>\<^verbatim>\<open>std::is_const_v<T>\<close>: a reference type is never const.\<close>

definition is_const_v :: "qualifiers \<Rightarrow> bool" where
  "is_const_v T = (const_qualified T \<and> reference T = NonReference)"

definition remove_cvref_t :: "qualifiers \<Rightarrow> qualifiers" where
  "remove_cvref_t T = \<lparr>const_qualified = False, reference = NonReference\<rparr>"

text \<open>
  A forwarding reference \<^verbatim>\<open>T&& x\<close> deduces \<^verbatim>\<open>T\<close> from the argument: \<^verbatim>\<open>cv C&\<close> for an
  lvalue, \<^verbatim>\<open>cv C\<close> for an rvalue.
\<close>

datatype value_category = Lvalue | Rvalue

definition deduce :: "value_category \<Rightarrow> bool \<Rightarrow> qualifiers" where
  "deduce cat is_const_object =
     \<lparr>const_qualified = is_const_object,
      reference = (case cat of Lvalue \<Rightarrow> LvalueReference | Rvalue \<Rightarrow> NonReference)\<rparr>"

text \<open>
  The qualified name \<^verbatim>\<open>T::_reflection_fields_n\<close> (and \<^verbatim>\<open>T::FieldData\<close>) denotes a member
  when \<^verbatim>\<open>T\<close> is a class type, not a reference to one, and the class has the macro.
\<close>

fun has_reflection_members :: "qualifiers \<Rightarrow> obj \<Rightarrow> bool" where
  "has_reflection_members T (Scalar t) = False"
| "has_reflection_members T (Class ms names) = (reference T = NonReference)"

text \<open>The members \<^verbatim>\<open>REFLECTABLE\<close> added to the class of an object.\<close>

fun reflection_of :: "obj \<Rightarrow> error + reflection" where
  "reflection_of (Scalar t) = Inl IllFormed"
| "reflection_of (Class ms names) = REFLECTABLE names"

section \<open>\<^verbatim>\<open>FieldData\<close>\<close>

text \<open>
  An object of \<^verbatim>\<open>FieldData<N, Object>\<close>: the template argument \<^verbatim>\<open>Object\<close>, the reference
  \<^verbatim>\<open>self\<close>, the \<^verbatim>\<open>dataMember\<close> of the specialisation, and the member of \<^verbatim>\<open>self\<close> that
  \<^verbatim>\<open>dataMember\<close> was resolved to when the specialisation was instantiated.
\<close>

record field_data =
  N :: nat
  Object :: qualifiers
  self :: obj
  member_name :: string
  member :: obj

datatype access = ReadOnly | Mutable

text \<open>
  A reference to a data member of the owning object: whether it is a reference to const,
  which member of the owner it designates, and the value found there.
\<close>

record reference =
  access :: access
  designated :: string
  referent :: obj

text \<open>\<^verbatim>\<open>using type = std::remove_cvref_t<decltype(std::decay_t<Object>::dataMember)>\<close>\<close>

definition type :: "field_data \<Rightarrow> obj" where
  "type fd = member fd"

text \<open>
  The two overloads of \<^verbatim>\<open>get()\<close>, chosen by their \<^verbatim>\<open>requires\<close> clauses:
  \<^verbatim>\<open>decltype(...)& get() const requires(std::is_const_v<Object>)\<close> and
  \<^verbatim>\<open>decltype(...) const& get() const requires(!std::is_const_v<Object>)\<close>, both with the
  body \<^verbatim>\<open>return self.dataMember;\<close>. The expression \<^verbatim>\<open>self.dataMember\<close> is const when the
  type \<^verbatim>\<open>self\<close> refers to is, and a reference to non-const does not bind to it.
\<close>

definition get :: "field_data \<Rightarrow> error + reference" where
  "get fd =
     (if is_const_v (Object fd)
      then (if const_qualified (Object fd) then Inl IllFormed
            else Inr \<lparr>access = Mutable, designated = member_name fd, referent = member fd\<rparr>)
      else Inr \<lparr>access = ReadOnly, designated = member_name fd, referent = member fd\<rparr>)"

text \<open>\<^verbatim>\<open>constexpr char const* name() const { return #dataMember; }\<close>\<close>

definition name :: "field_data \<Rightarrow> string" where
  "name fd = member_name fd"

text \<open>
  \<^verbatim>\<open>getPointerToMember()\<close> returns \<^verbatim>\<open>&std::decay_t<Object>::dataMember\<close>; applied to an
  object with \<^verbatim>\<open>x.*p\<close> it designates a member of \<open>x\<close> and yields what is stored there.
\<close>

datatype pointer_to_member = PointerToMember string

definition getPointerToMember :: "field_data \<Rightarrow> pointer_to_member" where
  "getPointerToMember fd = PointerToMember (member_name fd)"

fun apply_pointer_to_member :: "obj \<Rightarrow> pointer_to_member \<Rightarrow> (string \<times> obj) option" where
  "apply_pointer_to_member x (PointerToMember m) =
     (case map_of (members x) m of None \<Rightarrow> None | Some v \<Rightarrow> Some (m, v))"

section \<open>\<^verbatim>\<open>reflection::query\<close>\<close>

definition reflectable :: "qualifiers \<Rightarrow> obj \<Rightarrow> bool" where
  "reflectable T x = has_reflection_members (remove_cvref_t T) x"

definition query_getNumberOfFields :: "qualifiers \<Rightarrow> obj \<Rightarrow> error + int" where
  "query_getNumberOfFields T x =
     (if \<not> has_reflection_members (remove_cvref_t T) x then Inl IllFormed
      else (case reflection_of x of
              Inl e \<Rightarrow> Inl e
            | Inr r \<Rightarrow> Inr (reflection_fields_n r)))"

text \<open>
  \<^verbatim>\<open>typename std::remove_cvref_t<T>::template FieldData<N, T>(std::forward<T>(object))\<close>.
  The specialisation for \<open>N\<close> is chosen by its index; without one the primary template
  \<^verbatim>\<open>struct FieldData {}\<close> is chosen, which cannot be constructed from an object.
  Instantiating the specialisation resolves \<^verbatim>\<open>dataMember\<close> in the class. Its constructor
  \<^verbatim>\<open>FieldData(Object&& self) : self(self) {}\<close> binds the member \<^verbatim>\<open>Object&& self\<close> to the
  parameter, an lvalue: that is well-formed only when \<^verbatim>\<open>Object&&\<close> is an lvalue reference.
\<close>

definition getFieldData :: "nat \<Rightarrow> qualifiers \<Rightarrow> obj \<Rightarrow> error + field_data" where
  "getFieldData n T object =
     (if \<not> has_reflection_members (remove_cvref_t T) object then Inl IllFormed
      else (case reflection_of object of
              Inl e \<Rightarrow> Inl e
            | Inr r \<Rightarrow>
                (case find (\<lambda>sp. index sp = n) (FieldData r) of
                   None \<Rightarrow> Inl IllFormed
                 | Some sp \<Rightarrow>
                     (case dataMember sp of
                        Ident m \<Rightarrow>
                          (case map_of (members object) m of
                             None \<Rightarrow> Inl IllFormed
                           | Some v \<Rightarrow>
                               if reference T \<noteq> LvalueReference then Inl IllFormed
                               else Inr \<lparr>N = n, Object = T, self = object,
                                         member_name = m, member = v\<rparr>)
                      | other \<Rightarrow> Inl IllFormed))))"

section \<open>The functions of namespace \<^verbatim>\<open>reflection\<close>\<close>

definition isReflectable :: "qualifiers \<Rightarrow> obj \<Rightarrow> bool" where
  "isReflectable T x = reflectable T x"

definition getNumberOfFields :: "qualifiers \<Rightarrow> obj \<Rightarrow> error + int" where
  "getNumberOfFields T x = query_getNumberOfFields T x"

text \<open>
  Callbacks act on the state they capture, so a callback is a function from the state
  before the call to the state after it. A callback that takes a \<^verbatim>\<open>FieldData\<close> is a
  generic lambda, instantiated for each field it is called on, so its result can also be
  a rejection of that instantiation; the hooks take no argument.
\<close>

fun forEach :: "qualifiers \<Rightarrow> obj \<Rightarrow> (field_data \<Rightarrow> 's \<Rightarrow> error + 's) \<Rightarrow> nat list \<Rightarrow> 's \<Rightarrow> error + 's" where
  "forEach T x callback [] s = Inr s"
| "forEach T x callback (i # ints) s =
     (case getFieldData i T x of
        Inl e \<Rightarrow> Inl e
      | Inr fieldData \<Rightarrow>
          (case callback fieldData s of
             Inl e \<Rightarrow> Inl e
           | Inr s' \<Rightarrow> forEach T x callback ints s'))"

definition iterateThroughMember :: "qualifiers \<Rightarrow> obj \<Rightarrow> (field_data \<Rightarrow> 's \<Rightarrow> error + 's) \<Rightarrow> 's \<Rightarrow> error + 's" where
  "iterateThroughMember T x func s =
     (case query_getNumberOfFields T x of
        Inl e \<Rightarrow> Inl e
      | Inr n \<Rightarrow> forEach T x func [0..<nat n] s)"

text \<open>
  Termination: \<^verbatim>\<open>iterateThroughMember\<close> calls its callback only on descriptors of the
  object it is given, and the member a descriptor is bound to is a part of that object.
\<close>

lemma forEach_cong [fundef_cong]:
  assumes "T = T'" "x = x'" "ints = ints'" "s = s'"
    and "\<And>i fd t. getFieldData i T' x' = Inr fd \<Longrightarrow> f fd t = g fd t"
  shows "forEach T x f ints s = forEach T' x' g ints' s'"
  unfolding assms(1-4) using assms(5)
  by (induction ints' arbitrary: s') (auto split: sum.splits)

lemma iterateThroughMember_cong [fundef_cong]:
  assumes "T = T'" "x = x'" "s = s'"
    and "\<And>i fd t. getFieldData i T' x' = Inr fd \<Longrightarrow> f fd t = g fd t"
  shows "iterateThroughMember T x f s = iterateThroughMember T' x' g s'"
  unfolding iterateThroughMember_def assms(1-3)
  using forEach_cong[OF refl refl refl refl assms(4)]
  by (auto split: sum.splits)

lemma size_member: "map_of ms m = Some v \<Longrightarrow> size v < size (Class ms names)"
  by (induction ms) (auto split: if_splits)

lemma getFieldData_smaller: "getFieldData i T x = Inr fd \<Longrightarrow> size (member fd) < size x"
  by (cases x)
    (auto simp: getFieldData_def split: if_splits sum.splits option.splits token.splits
      dest: size_member)

text \<open>
  The type \<^verbatim>\<open>typename std::remove_cvref_t<U>::type\<close> that \<^verbatim>\<open>visit\<close> asks about has no
  qualifiers.
\<close>

definition unqualified :: qualifiers where
  "unqualified = \<lparr>const_qualified = False, reference = NonReference\<rparr>"

text \<open>
  \<^verbatim>\<open>_internal_visit(func, enterFunc, exitFunc, x)\<close>. Its argument is the expression
  \<^verbatim>\<open>std::forward<U>(fieldData).get()\<close>, an lvalue that is const when \<^verbatim>\<open>get()\<close> returned a
  reference to const, from which \<^verbatim>\<open>T\<close> is deduced.
\<close>

function internal_visit :: "(field_data \<Rightarrow> 's \<Rightarrow> error + 's) \<Rightarrow> ('s \<Rightarrow> 's) \<Rightarrow> ('s \<Rightarrow> 's) \<Rightarrow> qualifiers \<Rightarrow> obj \<Rightarrow> 's \<Rightarrow> error + 's" where
  "internal_visit func enterFunc exitFunc T x s =
     (case iterateThroughMember T x
             (\<lambda>fieldData s.
                if isReflectable unqualified (type fieldData)
                then (case get fieldData of
                        Inl e \<Rightarrow> Inl e
                      | Inr r \<Rightarrow> internal_visit func enterFunc exitFunc
                                  (deduce Lvalue (access r = ReadOnly)) (referent r) s)
                else func fieldData s)
             (enterFunc s) of
        Inl e \<Rightarrow> Inl e
      | Inr s' \<Rightarrow> Inr (exitFunc s'))"
  by pat_completeness auto
termination
  by (relation "measure (\<lambda>(func, enterFunc, exitFunc, T, x, s). size x)")
    (auto simp: get_def split: if_splits dest: getFieldData_smaller)

text \<open>
  Name lookup of \<^verbatim>\<open>_internal_visit\<close>. The header declares \<^verbatim>\<open>print\<close>, \<^verbatim>\<open>prettyPrint\<close>,
  \<^verbatim>\<open>isReflectable\<close> and the two overloads of \<^verbatim>\<open>visit\<close> at its top, but
  \<^verbatim>\<open>_internal_visit\<close> only where it is defined, after \<^verbatim>\<open>visit\<close>. Inside
  \<^verbatim>\<open>_internal_visit\<close> the name is in scope. In the lambda of \<^verbatim>\<open>visit\<close> it is not: the
  call there has dependent arguments, so the name is looked up when the lambda is
  instantiated for a reflectable field, and only in the namespaces associated with the
  types of the four arguments, the three functors and the value of the field. The
  function is found when one of them is namespace \<^verbatim>\<open>reflection\<close>. A lambda belongs to
  the namespace around the function it is written in.
\<close>

datatype namespace = namespace_reflection | namespace_elsewhere

record lookup =
  Functor :: namespace
  Functor2 :: namespace
  Functor3 :: namespace
  class_namespace :: "obj \<Rightarrow> namespace"

definition finds_internal_visit :: "lookup \<Rightarrow> obj \<Rightarrow> bool" where
  "finds_internal_visit L v =
     (Functor L = namespace_reflection \<or> Functor2 L = namespace_reflection \<or>
      Functor3 L = namespace_reflection \<or> class_namespace L v = namespace_reflection)"

text \<open>
  \<^verbatim>\<open>visit(func, enterFunc, exitFunc, x)\<close>, the overload with hooks, called with functors
  and classes of the namespaces \<open>L\<close>.
\<close>

definition visit_hooks :: "lookup \<Rightarrow> (field_data \<Rightarrow> 's \<Rightarrow> error + 's) \<Rightarrow> ('s \<Rightarrow> 's) \<Rightarrow> ('s \<Rightarrow> 's) \<Rightarrow> qualifiers \<Rightarrow> obj \<Rightarrow> 's \<Rightarrow> error + 's" where
  "visit_hooks L func enterFunc exitFunc T x s =
     (if \<not> isReflectable T x
      then Inl (StaticAssertFailed
        ''Class provided is not reflectable! Did you forget to provide the REFLECTABLE macro?'')
      else iterateThroughMember T x
             (\<lambda>fieldData s.
                if isReflectable unqualified (type fieldData)
                then (if \<not> finds_internal_visit L (type fieldData) then Inl IllFormed
                      else (case get fieldData of
                              Inl e \<Rightarrow> Inl e
                            | Inr r \<Rightarrow> internal_visit func enterFunc exitFunc
                                        (deduce Lvalue (access r = ReadOnly)) (referent r) s))
                else func fieldData s)
             s)"

text \<open>
  \<^verbatim>\<open>visit(func, x)\<close> passes two empty lambdas of its own for the hooks. They are
  written in namespace \<^verbatim>\<open>reflection\<close>, so the lookup succeeds whatever the namespaces of
  \<^verbatim>\<open>Functor\<close> and of the classes are; the least favourable ones are written here.
\<close>

definition visit_lookup :: lookup where
  "visit_lookup =
     \<lparr>Functor = namespace_elsewhere, Functor2 = namespace_reflection,
      Functor3 = namespace_reflection, class_namespace = (\<lambda>v. namespace_elsewhere)\<rparr>"

definition visit :: "(field_data \<Rightarrow> 's \<Rightarrow> error + 's) \<Rightarrow> qualifiers \<Rightarrow> obj \<Rightarrow> 's \<Rightarrow> error + 's" where
  "visit func T x s = visit_hooks visit_lookup func (\<lambda>s. s) (\<lambda>s. s) T x s"

text \<open>\<^verbatim>\<open>print\<close>: its lambda \<^verbatim>\<open>[](auto fieldData) { }\<close> does nothing.\<close>

definition print :: "qualifiers \<Rightarrow> obj \<Rightarrow> 's \<Rightarrow> error + 's" where
  "print T x s =
     (if \<not> isReflectable T x
      then Inl (StaticAssertFailed
        ''Class provided is not reflectable! Did you forget to provide the REFLECTABLE macro?'')
      else visit (\<lambda>fieldData s. Inr s) T x s)"

text \<open>
  \<^verbatim>\<open>prettyPrint\<close>: the three lambdas, written in namespace \<^verbatim>\<open>reflection\<close>, capture
  \<^verbatim>\<open>recursionDepth\<close> by reference and write to \<^verbatim>\<open>std::cout\<close>. A loop \<^verbatim>\<open>for (int i = 0; i < n; ++i) std::cout << "    ";\<close> writes
  four spaces \<open>n\<close> times, and nothing for \<open>n \<le> 0\<close>. \<^verbatim>\<open>std::cout << fieldData.get()\<close>
  writes the text of a value that has an \<^verbatim>\<open>operator<<\<close>.
\<close>

record printer =
  recursionDepth :: int
  cout :: string

definition indent :: "int \<Rightarrow> string" where
  "indent n = concat (replicate (nat n) ''    '')"

definition prettyPrint_func :: "field_data \<Rightarrow> printer \<Rightarrow> error + printer" where
  "prettyPrint_func fieldData p =
     (case get fieldData of
        Inl e \<Rightarrow> Inl e
      | Inr r \<Rightarrow>
          (case referent r of
             Scalar t \<Rightarrow>
               Inr (p\<lparr>cout := cout p @ indent (recursionDepth p + 1) @
                             name fieldData @ '' = '' @ t @ '',\<newline>''\<rparr>)
           | Class ms names \<Rightarrow> Inl IllFormed))"

definition prettyPrint_enterFunc :: "printer \<Rightarrow> printer" where
  "prettyPrint_enterFunc p =
     (let p1 = p\<lparr>recursionDepth := recursionDepth p + 1\<rparr>
      in p1\<lparr>cout := cout p1 @ indent (recursionDepth p1) @ ''{\<newline>''\<rparr>)"

definition prettyPrint_exitFunc :: "printer \<Rightarrow> printer" where
  "prettyPrint_exitFunc p =
     (let p1 = p\<lparr>cout := cout p @ indent (recursionDepth p) @ ''},\<newline>''\<rparr>
      in p1\<lparr>recursionDepth := recursionDepth p1 - 1\<rparr>)"

definition prettyPrint_lookup :: lookup where
  "prettyPrint_lookup =
     \<lparr>Functor = namespace_reflection, Functor2 = namespace_reflection,
      Functor3 = namespace_reflection, class_namespace = (\<lambda>v. namespace_elsewhere)\<rparr>"

definition prettyPrint :: "qualifiers \<Rightarrow> obj \<Rightarrow> string \<Rightarrow> error + string" where
  "prettyPrint T x out =
     (if \<not> isReflectable T x
      then Inl (StaticAssertFailed
        ''Class provided is not reflectable! Did you forget to provide the REFLECTABLE macro?'')
      else (case visit_hooks prettyPrint_lookup
                   prettyPrint_func prettyPrint_enterFunc prettyPrint_exitFunc T x
                   \<lparr>recursionDepth = 0, cout = out @ ''{\<newline>''\<rparr> of
              Inl e \<Rightarrow> Inl e
            | Inr p \<Rightarrow> Inr (cout p @ ''}\<newline>'')))"

section \<open>Specifications and examples\<close>

text \<open>
  The definitions of this section are not translations of the header. They say, in the
  words of its specification, what the code above is expected to do, and the theorems
  compare the two; the others are objects to evaluate the code on.
\<close>

text \<open>The specialisations an accepted declaration generates.\<close>

definition specialisations :: "string list \<Rightarrow> specialisation list" where
  "specialisations names = map (\<lambda>j. REFLECT_EACH (Ident (names ! j)) j) [0..<length names]"

text \<open>The class definitions in an object that the compiler accepts: the macro of every
  class expands to well-formed members, and every name in it is a data member.\<close>

fun classes_compile :: "obj \<Rightarrow> bool" where
  "classes_compile (Scalar t) = True"
| "classes_compile (Class ms names) =
     (\<not> isl (REFLECTABLE names) \<and> set names \<subseteq> fst ` set ms \<and>
      list_all (\<lambda>(m, v). classes_compile v) ms)"

text \<open>The argument list of \<^verbatim>\<open>REFLECTABLE\<close> with the 32 names \<open>a, ..., z, aa, ..., ff\<close>.\<close>

definition thirty_two_names :: "string list" where
  "thirty_two_names =
     [''a'', ''b'', ''c'', ''d'', ''e'', ''f'', ''g'', ''h'', ''i'', ''j'', ''k'', ''l'', ''m'',
      ''n'', ''o'', ''p'', ''q'', ''r'', ''s'', ''t'', ''u'', ''v'', ''w'', ''x'', ''y'', ''z'',
      ''aa'', ''bb'', ''cc'', ''dd'', ''ee'', ''ff'']"

text \<open>\<^verbatim>\<open>struct Point { float x = 0; float y = 0; REFLECTABLE(x, y) };\<close> of \<^verbatim>\<open>main.cpp\<close>.\<close>

definition Point :: "string \<Rightarrow> string \<Rightarrow> obj" where
  "Point x y = Class [(''x'', Scalar x), (''y'', Scalar y)] [''x'', ''y'']"

text \<open>
  The calls a traversal makes on its three callbacks: the leaf callback on a descriptor,
  the enter hook, the exit hook. \<open>perform_all\<close> makes the calls of a list in order,
  stopping at an instantiation of the leaf callback that is rejected.
\<close>

datatype event = Leaf field_data | Enter | Exit

fun perform :: "(field_data \<Rightarrow> 's \<Rightarrow> error + 's) \<Rightarrow> ('s \<Rightarrow> 's) \<Rightarrow> ('s \<Rightarrow> 's) \<Rightarrow> event \<Rightarrow> 's \<Rightarrow> error + 's" where
  "perform func enterFunc exitFunc (Leaf fd) s = func fd s"
| "perform func enterFunc exitFunc Enter s = Inr (enterFunc s)"
| "perform func enterFunc exitFunc Exit s = Inr (exitFunc s)"

fun perform_all :: "(field_data \<Rightarrow> 's \<Rightarrow> error + 's) \<Rightarrow> ('s \<Rightarrow> 's) \<Rightarrow> ('s \<Rightarrow> 's) \<Rightarrow> event list \<Rightarrow> 's \<Rightarrow> error + 's" where
  "perform_all func enterFunc exitFunc [] s = Inr s"
| "perform_all func enterFunc exitFunc (ev # evs) s =
     (case perform func enterFunc exitFunc ev s of
        Inl e \<Rightarrow> Inl e
      | Inr s' \<Rightarrow> perform_all func enterFunc exitFunc evs s')"

text \<open>
  The calls expected of a visit with hooks: it goes through the ordinals of the
  declaration in ascending order; a field whose type is not reflectable is a leaf, and the
  leaf callback is called once on its descriptor; a field whose type is reflectable is a
  composite, for which the enter hook is called, then the calls for the fields of its
  value are made, then the exit hook is called. Nothing is called around the instance
  itself. The value of a composite field is reached through \<open>get()\<close>, so the
  descriptors inside it are those of a const lvalue.
\<close>

function expected_calls :: "qualifiers \<Rightarrow> obj \<Rightarrow> event list" where
  "expected_calls T (Scalar t) = []"
| "expected_calls T (Class ms names) =
     concat (map (\<lambda>i. case map_of ms (names ! i) of
                         None \<Rightarrow> []
                       | Some v \<Rightarrow>
                           (case v of
                              Scalar t \<Rightarrow>
                                [Leaf \<lparr>N = i, Object = T, self = Class ms names,
                                       member_name = names ! i, member = v\<rparr>]
                            | Class ms' names' \<Rightarrow>
                                Enter # expected_calls (deduce Lvalue True) v @ [Exit]))
                 [0..<length names])"
  by pat_completeness auto
termination
  by (relation "measure (\<lambda>(T, x). size x)") (auto dest: size_member)

declare internal_visit.simps [simp del] expected_calls.simps(2) [simp del]

text \<open>
  Stack discipline of a sequence of calls at nesting depth \<open>d\<close>: an exit closes the
  innermost enter that is still open, none is left open at the end, and no exit comes
  without an enter.
\<close>

fun well_nested :: "nat \<Rightarrow> event list \<Rightarrow> bool" where
  "well_nested d [] = (d = 0)"
| "well_nested d (Leaf fd # evs) = well_nested d evs"
| "well_nested d (Enter # evs) = well_nested (Suc d) evs"
| "well_nested d (Exit # evs) = (0 < d \<and> well_nested (d - 1) evs)"

text \<open>The lambda that \<^verbatim>\<open>visit\<close> and \<^verbatim>\<open>_internal_visit\<close> pass to \<^verbatim>\<open>iterateThroughMember\<close>.\<close>

abbreviation (input) visit_lambda where
  "visit_lambda func enterFunc exitFunc \<equiv>
     (\<lambda>fieldData s.
        if isReflectable unqualified (type fieldData)
        then (case get fieldData of
                Inl e \<Rightarrow> Inl e
              | Inr r \<Rightarrow> internal_visit func enterFunc exitFunc
                          (deduce Lvalue (access r = ReadOnly)) (referent r) s)
        else func fieldData s)"

text \<open>The records of the scenario: \<open>R1\<close> has the scalar field \<open>a\<close> and the field \<open>b\<close> of
  type \<open>R2\<close>; \<open>R2\<close> has the scalar fields \<open>c\<close> and \<open>d\<close>.\<close>

definition R2 :: obj where
  "R2 = Class [(''c'', Scalar ''2''), (''d'', Scalar ''3'')] [''c'', ''d'']"

definition R1 :: obj where
  "R1 = Class [(''a'', Scalar ''1''), (''b'', R2)] [''a'', ''b'']"

text \<open>
  The leaf fields expected of a visit, after expanding composite fields, depth first: for
  the ordinals of the declaration in ascending order, the descriptor of a field whose type
  is not reflectable, and the leaf fields of the value of a field whose type is.
\<close>

function expected_leaves :: "qualifiers \<Rightarrow> obj \<Rightarrow> field_data list" where
  "expected_leaves T (Scalar t) = []"
| "expected_leaves T (Class ms names) =
     concat (map (\<lambda>i. case map_of ms (names ! i) of
                         None \<Rightarrow> []
                       | Some v \<Rightarrow>
                           (case v of
                              Scalar t \<Rightarrow>
                                [\<lparr>N = i, Object = T, self = Class ms names,
                                  member_name = names ! i, member = v\<rparr>]
                            | Class ms' names' \<Rightarrow> expected_leaves (deduce Lvalue True) v))
                 [0..<length names])"
  by pat_completeness auto
termination
  by (relation "measure (\<lambda>(T, x). size x)") (auto dest: size_member)

text \<open>Calling a leaf callback on each descriptor of a list, in order.\<close>

fun call_each :: "(field_data \<Rightarrow> 's \<Rightarrow> error + 's) \<Rightarrow> field_data list \<Rightarrow> 's \<Rightarrow> error + 's" where
  "call_each func [] s = Inr s"
| "call_each func (fd # fds) s =
     (case func fd s of
        Inl e \<Rightarrow> Inl e
      | Inr s' \<Rightarrow> call_each func fds s')"

text \<open>\<^verbatim>\<open>struct Points { Point pt1 {}; Point pt2 {}; Point pt3 {}; REFLECTABLE(pt1, pt2, pt3) };\<close>
  of \<^verbatim>\<open>main.cpp\<close>, with the values of \<^verbatim>\<open>points\<close> there.\<close>

definition Points :: obj where
  "Points = Class [(''pt1'', Point ''1'' ''2''), (''pt2'', Point ''3'' ''4''),
                   (''pt3'', Point ''5'' ''6'')] [''pt1'', ''pt2'', ''pt3'']"

declare expected_leaves.simps(2) [simp del]

text \<open>The descriptors of the leaf calls in a sequence of calls.\<close>

fun leaves_of :: "event list \<Rightarrow> field_data list" where
  "leaves_of [] = []"
| "leaves_of (Leaf fd # evs) = fd # leaves_of evs"
| "leaves_of (Enter # evs) = leaves_of evs"
| "leaves_of (Exit # evs) = leaves_of evs"

text \<open>
  The text expected between the outer braces of \<^verbatim>\<open>prettyPrint\<close>, for the fields of an object whose
  enclosing block is at \<open>depth\<close>: a leaf is the line \<open>name = value,\<close> and a composite
  field is a line \<open>{\<close>, the text of its own fields one level deeper, and a line \<open>},\<close>;
  all three kinds of line are indented by \<open>depth + 1\<close> units of four spaces.
\<close>

function expected_text :: "int \<Rightarrow> obj \<Rightarrow> string" where
  "expected_text depth (Scalar t) = []"
| "expected_text depth (Class ms names) =
     concat (map (\<lambda>i. case map_of ms (names ! i) of
                         None \<Rightarrow> []
                       | Some v \<Rightarrow>
                           (case v of
                              Scalar t \<Rightarrow>
                                indent (depth + 1) @ names ! i @ '' = '' @ t @ '',\<newline>''
                            | Class ms' names' \<Rightarrow>
                                indent (depth + 1) @ ''{\<newline>'' @
                                expected_text (depth + 1) v @
                                indent (depth + 1) @ ''},\<newline>''))
                 [0..<length names])"
  by pat_completeness auto
termination
  by (relation "measure (\<lambda>(depth, x). size x)") (auto dest: size_member)

text \<open>The leaf line with the indentation of depth times the unit.\<close>

definition claimed_leaf_line :: "int \<Rightarrow> string \<Rightarrow> string \<Rightarrow> string" where
  "claimed_leaf_line depth n v = indent depth @ n @ '' = '' @ v @ '',\<newline>''"

text \<open>An object two levels deep: \<open>R1\<close> inside a class with the fields \<open>r\<close> and \<open>z\<close>.\<close>

definition R0 :: obj where
  "R0 = Class [(''r'', R1), (''z'', Scalar ''9'')] [''r'', ''z'']"

declare expected_text.simps(2) [simp del]

text \<open>The message of the \<^verbatim>\<open>static_assert\<close> in \<^verbatim>\<open>visit\<close>, \<^verbatim>\<open>print\<close> and \<^verbatim>\<open>prettyPrint\<close>.\<close>

definition not_reflectable :: error where
  "not_reflectable = StaticAssertFailed
     ''Class provided is not reflectable! Did you forget to provide the REFLECTABLE macro?''"

text \<open>
  The namespaces of a program like \<^verbatim>\<open>main.cpp\<close>: its functors are lambdas of \<^verbatim>\<open>main\<close>
  and its classes are declared in the global namespace.
\<close>

definition user_code :: lookup where
  "user_code =
     \<lparr>Functor = namespace_elsewhere, Functor2 = namespace_elsewhere,
      Functor3 = namespace_elsewhere, class_namespace = (\<lambda>v. namespace_elsewhere)\<rparr>"

text \<open>\<^verbatim>\<open>struct Misnamed { int x = 0; REFLECTABLE(y) };\<close>: the declaration names \<open>y\<close>, which
  is not a data member.\<close>

definition Misnamed :: obj where
  "Misnamed = Class [(''x'', Scalar ''0'')] [''y'']"

section \<open>Lemmas\<close>

lemma countdown_nth:
  assumes "k \<le> 32"
  shows "[Num 32, Num 31, Num 30, Num 29, Num 28, Num 27, Num 26, Num 25, Num 24, Num 23,
      Num 22, Num 21, Num 20, Num 19, Num 18, Num 17, Num 16, Num 15, Num 14, Num 13,
      Num 12, Num 11, Num 10, Num 9, Num 8, Num 7, Num 6, Num 5, Num 4, Num 3, Num 2,
      Num 1, Num 0] ! (32 - k) = Num k"
proof -
  have "[Num 32, Num 31, Num 30, Num 29, Num 28, Num 27, Num 26, Num 25, Num 24, Num 23,
      Num 22, Num 21, Num 20, Num 19, Num 18, Num 17, Num 16, Num 15, Num 14, Num 13,
      Num 12, Num 11, Num 10, Num 9, Num 8, Num 7, Num 6, Num 5, Num 4, Num 3, Num 2,
      Num 1, Num 0] = map Num (rev [0..<33])"
    by (simp add: upt_rec)
  moreover have "map Num (rev [0..<33]) ! (32 - k) = Num k"
    using assms by (simp add: rev_nth)
  ultimately show ?thesis by simp
qed

lemma COUNT_ARGS_nonempty:
  assumes "names \<noteq> []" "length names \<le> 32"
  shows "COUNT_ARGS names = Inr (Num (length names))"
  using assms countdown_nth[of "length names"]
  by (simp add: COUNT_ARGS_def COUNT_ARGS_IMPL_def VA_ARGS_def nth_append)

lemma COUNT_ARGS_empty: "COUNT_ARGS [] = Inr (Num 1)"
  by (simp add: COUNT_ARGS_def COUNT_ARGS_IMPL_def VA_ARGS_def)

lemma COUNT_ARGS_many:
  assumes "32 < length names"
  shows "COUNT_ARGS names = Inr (Ident (names ! 32))"
  using assms
  by (auto simp add: COUNT_ARGS_def COUNT_ARGS_IMPL_def VA_ARGS_def nth_append)

lemma macro_names_nth:
  assumes "1 \<le> k" "k \<le> 32"
  shows "[APPLY_MACRO_TO_EACH_name 32, APPLY_MACRO_TO_EACH_name 31, APPLY_MACRO_TO_EACH_name 30,
         APPLY_MACRO_TO_EACH_name 29, APPLY_MACRO_TO_EACH_name 28, APPLY_MACRO_TO_EACH_name 27,
         APPLY_MACRO_TO_EACH_name 26, APPLY_MACRO_TO_EACH_name 25, APPLY_MACRO_TO_EACH_name 24,
         APPLY_MACRO_TO_EACH_name 23, APPLY_MACRO_TO_EACH_name 22, APPLY_MACRO_TO_EACH_name 21,
         APPLY_MACRO_TO_EACH_name 20, APPLY_MACRO_TO_EACH_name 19, APPLY_MACRO_TO_EACH_name 18,
         APPLY_MACRO_TO_EACH_name 17, APPLY_MACRO_TO_EACH_name 16, APPLY_MACRO_TO_EACH_name 15,
         APPLY_MACRO_TO_EACH_name 14, APPLY_MACRO_TO_EACH_name 13, APPLY_MACRO_TO_EACH_name 12,
         APPLY_MACRO_TO_EACH_name 11, APPLY_MACRO_TO_EACH_name 10, APPLY_MACRO_TO_EACH_name 9,
         APPLY_MACRO_TO_EACH_name 8, APPLY_MACRO_TO_EACH_name 7, APPLY_MACRO_TO_EACH_name 6,
         APPLY_MACRO_TO_EACH_name 5, APPLY_MACRO_TO_EACH_name 4, APPLY_MACRO_TO_EACH_name 3,
         APPLY_MACRO_TO_EACH_name 2, APPLY_MACRO_TO_EACH_name 1] ! (32 - k)
         = APPLY_MACRO_TO_EACH_name k"
proof -
  have "[APPLY_MACRO_TO_EACH_name 32, APPLY_MACRO_TO_EACH_name 31, APPLY_MACRO_TO_EACH_name 30,
         APPLY_MACRO_TO_EACH_name 29, APPLY_MACRO_TO_EACH_name 28, APPLY_MACRO_TO_EACH_name 27,
         APPLY_MACRO_TO_EACH_name 26, APPLY_MACRO_TO_EACH_name 25, APPLY_MACRO_TO_EACH_name 24,
         APPLY_MACRO_TO_EACH_name 23, APPLY_MACRO_TO_EACH_name 22, APPLY_MACRO_TO_EACH_name 21,
         APPLY_MACRO_TO_EACH_name 20, APPLY_MACRO_TO_EACH_name 19, APPLY_MACRO_TO_EACH_name 18,
         APPLY_MACRO_TO_EACH_name 17, APPLY_MACRO_TO_EACH_name 16, APPLY_MACRO_TO_EACH_name 15,
         APPLY_MACRO_TO_EACH_name 14, APPLY_MACRO_TO_EACH_name 13, APPLY_MACRO_TO_EACH_name 12,
         APPLY_MACRO_TO_EACH_name 11, APPLY_MACRO_TO_EACH_name 10, APPLY_MACRO_TO_EACH_name 9,
         APPLY_MACRO_TO_EACH_name 8, APPLY_MACRO_TO_EACH_name 7, APPLY_MACRO_TO_EACH_name 6,
         APPLY_MACRO_TO_EACH_name 5, APPLY_MACRO_TO_EACH_name 4, APPLY_MACRO_TO_EACH_name 3,
         APPLY_MACRO_TO_EACH_name 2, APPLY_MACRO_TO_EACH_name 1]
        = map APPLY_MACRO_TO_EACH_name (rev [1..<33])"
    by (simp add: upt_rec)
  moreover have "map APPLY_MACRO_TO_EACH_name (rev [1..<33]) ! (32 - k) = APPLY_MACRO_TO_EACH_name k"
    using assms by (simp add: rev_nth)
  ultimately show ?thesis by simp
qed

lemma APPLY_MACRO_TO_EACH_N_exact:
  assumes "as \<noteq> []"
  shows "APPLY_MACRO_TO_EACH_N (length as) macro i as =
           Inr (map (\<lambda>j. macro (as ! j) (i + j)) [0..<length as])"
  using assms
proof (induction as arbitrary: i)
  case Nil
  then show ?case by simp
next
  case (Cons a as)
  show ?case
  proof (cases as)
    case Nil
    then show ?thesis by simp
  next
    case (Cons b bs)
    with Cons.IH[of "i + 1"] show ?thesis
      by (simp add: map_upt_Suc del: upt_Suc)
  qed
qed

lemma APPLY_MACRO_TO_EACH_nonempty:
  assumes "names \<noteq> []" "length names \<le> 32"
  shows "APPLY_MACRO_TO_EACH macro names =
           Inr (map (\<lambda>j. macro (Ident (names ! j)) j) [0..<length names])"
proof -
  have "GET_MACRO (VA_ARGS names @
        [APPLY_MACRO_TO_EACH_name 32, APPLY_MACRO_TO_EACH_name 31, APPLY_MACRO_TO_EACH_name 30,
         APPLY_MACRO_TO_EACH_name 29, APPLY_MACRO_TO_EACH_name 28, APPLY_MACRO_TO_EACH_name 27,
         APPLY_MACRO_TO_EACH_name 26, APPLY_MACRO_TO_EACH_name 25, APPLY_MACRO_TO_EACH_name 24,
         APPLY_MACRO_TO_EACH_name 23, APPLY_MACRO_TO_EACH_name 22, APPLY_MACRO_TO_EACH_name 21,
         APPLY_MACRO_TO_EACH_name 20, APPLY_MACRO_TO_EACH_name 19, APPLY_MACRO_TO_EACH_name 18,
         APPLY_MACRO_TO_EACH_name 17, APPLY_MACRO_TO_EACH_name 16, APPLY_MACRO_TO_EACH_name 15,
         APPLY_MACRO_TO_EACH_name 14, APPLY_MACRO_TO_EACH_name 13, APPLY_MACRO_TO_EACH_name 12,
         APPLY_MACRO_TO_EACH_name 11, APPLY_MACRO_TO_EACH_name 10, APPLY_MACRO_TO_EACH_name 9,
         APPLY_MACRO_TO_EACH_name 8, APPLY_MACRO_TO_EACH_name 7, APPLY_MACRO_TO_EACH_name 6,
         APPLY_MACRO_TO_EACH_name 5, APPLY_MACRO_TO_EACH_name 4, APPLY_MACRO_TO_EACH_name 3,
         APPLY_MACRO_TO_EACH_name 2, APPLY_MACRO_TO_EACH_name 1])
        = Inr (APPLY_MACRO_TO_EACH_name (length names))"
    using assms macro_names_nth[of "length names"]
    by (simp add: GET_MACRO_def VA_ARGS_def nth_append Suc_le_eq)
  moreover have "APPLY_MACRO_TO_EACH_N (length names) macro 0 (VA_ARGS names) =
      Inr (map (\<lambda>j. macro (Ident (names ! j)) j) [0..<length names])"
    using assms(1) APPLY_MACRO_TO_EACH_N_exact[of "map Ident names" macro 0]
    by (simp add: VA_ARGS_def)
  ultimately show ?thesis
    by (simp add: APPLY_MACRO_TO_EACH_def)
qed

lemma APPLY_MACRO_TO_EACH_empty:
  "APPLY_MACRO_TO_EACH macro [] = Inr [macro (Ident []) 0]"
  by (simp add: APPLY_MACRO_TO_EACH_def GET_MACRO_def VA_ARGS_def)

lemma REFLECTABLE_accepted:
  assumes "names \<noteq> []" "length names < 32" "[] \<notin> set names"
  shows "REFLECTABLE names =
    Inr \<lparr>reflection_fields_n = int (length names), FieldData = specialisations names\<rparr>"
proof -
  have "list_all parses (specialisations names)"
    using assms(3)
    by (auto simp: specialisations_def list_all_iff REFLECT_EACH_def in_set_conv_nth)
  then show ?thesis
    using assms(1,2)
    by (simp add: REFLECTABLE_def COUNT_ARGS_nonempty APPLY_MACRO_TO_EACH_nonempty
        specialisations_def)
qed

lemma REFLECTABLE_rejected:
  assumes "names = [] \<or> 32 \<le> length names \<or> [] \<in> set names"
  shows "isl (REFLECTABLE names)"
proof -
  consider "names = []" | "names \<noteq> []" "length names = 32" | "32 < length names"
    | "names \<noteq> []" "length names < 32" "[] \<in> set names"
    using assms by fastforce
  then show ?thesis
  proof cases
    case 1
    then show ?thesis
      by (simp add: REFLECTABLE_def COUNT_ARGS_empty APPLY_MACRO_TO_EACH_empty REFLECT_EACH_def)
  next
    case 2
    then show ?thesis by (simp add: REFLECTABLE_def COUNT_ARGS_nonempty)
  next
    case 3
    then show ?thesis by (simp add: REFLECTABLE_def COUNT_ARGS_many)
  next
    case 4
    then have "\<not> list_all parses (map (\<lambda>j. REFLECT_EACH (Ident (names ! j)) j) [0..<length names])"
      by (auto simp: list_all_iff REFLECT_EACH_def in_set_conv_nth)
    with 4 show ?thesis
      by (simp add: REFLECTABLE_def COUNT_ARGS_nonempty APPLY_MACRO_TO_EACH_nonempty)
  qed
qed

lemma REFLECTABLE_InrD:
  assumes "REFLECTABLE names = Inr r"
  shows "names \<noteq> []" and "length names < 32" and "[] \<notin> set names"
    and "r = \<lparr>reflection_fields_n = int (length names), FieldData = specialisations names\<rparr>"
proof -
  have "\<not> (names = [] \<or> 32 \<le> length names \<or> [] \<in> set names)"
    using REFLECTABLE_rejected[of names] assms by auto
  then show ok: "names \<noteq> []" "length names < 32" "[] \<notin> set names"
    by auto
  from REFLECTABLE_accepted[OF ok] assms
  show "r = \<lparr>reflection_fields_n = int (length names), FieldData = specialisations names\<rparr>"
    by simp
qed

lemma REFLECTABLE_x_y:
  "REFLECTABLE [''x'', ''y''] =
     Inr \<lparr>reflection_fields_n = 2,
          FieldData = [\<lparr>index = 0, dataMember = Ident ''x''\<rparr>,
                       \<lparr>index = 1, dataMember = Ident ''y''\<rparr>]\<rparr>"
  by (simp add: REFLECTABLE_accepted specialisations_def REFLECT_EACH_def upt_rec)

lemma find_by_index:
  assumes "\<And>j. index (f j) = j"
  shows "find (\<lambda>sp. index sp = i) (map f js) = (if i \<in> set js then Some (f i) else None)"
  using assms by (induction js) auto

lemma find_specialisation:
  "find (\<lambda>sp. index sp = i) (specialisations names) =
     (if i < length names then Some \<lparr>index = i, dataMember = Ident (names ! i)\<rparr> else None)"
  unfolding specialisations_def
  by (subst find_by_index) (auto simp: REFLECT_EACH_def)

lemma getFieldData_accepted:
  assumes "REFLECTABLE names = Inr r"
  shows "getFieldData i T (Class ms names) =
    (if i < length names
     then (case map_of ms (names ! i) of
             None \<Rightarrow> Inl IllFormed
           | Some v \<Rightarrow>
               if reference T \<noteq> LvalueReference then Inl IllFormed
               else Inr \<lparr>N = i, Object = T, self = Class ms names,
                         member_name = names ! i, member = v\<rparr>)
     else Inl IllFormed)"
  using REFLECTABLE_InrD(4)[OF assms] assms
  by (simp add: getFieldData_def remove_cvref_t_def find_specialisation)

lemma getNumberOfFields_accepted:
  assumes "REFLECTABLE names = Inr r"
  shows "query_getNumberOfFields T (Class ms names) = Inr (int (length names))"
  using REFLECTABLE_InrD(4)[OF assms] assms
  by (simp add: query_getNumberOfFields_def remove_cvref_t_def)

lemma perform_all_append:
  "perform_all func enterFunc exitFunc (evs @ evs') s =
     (case perform_all func enterFunc exitFunc evs s of
        Inl e \<Rightarrow> Inl e
      | Inr s' \<Rightarrow> perform_all func enterFunc exitFunc evs' s')"
  by (induction evs arbitrary: s) (auto split: sum.splits)

lemma classes_compile_member:
  assumes "classes_compile (Class ms names)" and "map_of ms m = Some v"
  shows "classes_compile v"
  using assms by (auto simp: list_all_iff dest: map_of_SomeD)

lemma isReflectable_iff: "isReflectable T x = (\<exists>ms names. x = Class ms names)"
  by (cases x) (auto simp: isReflectable_def reflectable_def remove_cvref_t_def)

lemma forEach_calls:
  assumes acc: "REFLECTABLE names = Inr r"
    and T: "reference T = LvalueReference"
    and sub: "set names \<subseteq> fst ` set ms"
    and IH: "\<And>m v ms' names' s. map_of ms m = Some v \<Longrightarrow> v = Class ms' names' \<Longrightarrow>
           internal_visit func enterFunc exitFunc (deduce Lvalue True) v s =
           perform_all func enterFunc exitFunc (Enter # expected_calls (deduce Lvalue True) v @ [Exit]) s"
    and ints: "set ints \<subseteq> {..<length names}"
  shows "forEach T (Class ms names) (visit_lambda func enterFunc exitFunc) ints s =
     perform_all func enterFunc exitFunc
       (concat (map (\<lambda>i. case map_of ms (names ! i) of
                         None \<Rightarrow> []
                       | Some v \<Rightarrow>
                           (case v of
                              Scalar t \<Rightarrow>
                                [Leaf \<lparr>N = i, Object = T, self = Class ms names,
                                       member_name = names ! i, member = v\<rparr>]
                            | Class ms' names' \<Rightarrow>
                                Enter # expected_calls (deduce Lvalue True) v @ [Exit]))
                 ints)) s"
    (is "forEach _ ?x ?cb _ _ = perform_all _ _ _ (concat (map ?F _)) _")
  using ints
proof (induction ints arbitrary: s)
  case Nil
  then show ?case by simp
next
  case (Cons i ints)
  then have i: "i < length names" and rest: "set ints \<subseteq> {..<length names}"
    by auto
  from i sub have "names ! i \<in> fst ` set ms"
    by (auto dest: nth_mem)
  then obtain v where v: "map_of ms (names ! i) = Some v"
    by (cases "map_of ms (names ! i)") (auto simp: map_of_eq_None_iff)
  define fd where "fd = \<lparr>N = i, Object = T, self = ?x, member_name = names ! i, member = v\<rparr>"
  have fd: "getFieldData i T ?x = Inr fd"
    using i v T by (simp add: getFieldData_accepted[OF acc] fd_def)
  have cb: "?cb fd s = perform_all func enterFunc exitFunc (?F i) s"
  proof (cases v)
    case (Scalar t)
    with v show ?thesis
      by (simp add: isReflectable_iff type_def fd_def split: sum.splits)
  next
    case (Class ms' names')
    have g: "get fd = Inr \<lparr>access = ReadOnly, designated = names ! i, referent = v\<rparr>"
      using T by (simp add: get_def is_const_v_def fd_def)
    have r: "isReflectable unqualified (type fd)"
      using Class by (simp add: isReflectable_iff type_def fd_def)
    have "?cb fd s = internal_visit func enterFunc exitFunc (deduce Lvalue True) v s"
      by (simp add: r g)
    also have "\<dots> = perform_all func enterFunc exitFunc
        (Enter # expected_calls (deduce Lvalue True) v @ [Exit]) s"
      by (rule IH[OF v Class])
    also have "Enter # expected_calls (deduce Lvalue True) v @ [Exit] = ?F i"
      using v Class by simp
    finally show ?thesis .
  qed
  have "forEach T ?x ?cb (i # ints) s =
      (case ?cb fd s of Inl e \<Rightarrow> Inl e | Inr s' \<Rightarrow> forEach T ?x ?cb ints s')"
    using fd by simp
  also have "\<dots> = (case perform_all func enterFunc exitFunc (?F i) s of
      Inl e \<Rightarrow> Inl e
    | Inr s' \<Rightarrow> perform_all func enterFunc exitFunc (concat (map ?F ints)) s')"
    unfolding cb using Cons.IH[OF rest] by (simp split: sum.splits)
  also have "\<dots> = perform_all func enterFunc exitFunc (concat (map ?F (i # ints))) s"
    by (simp add: perform_all_append del: perform_all.simps)
  finally show ?case .
qed

lemma perform_all_bracket:
  "perform_all func enterFunc exitFunc (Enter # evs @ [Exit]) s =
     (case perform_all func enterFunc exitFunc evs (enterFunc s) of
        Inl e \<Rightarrow> Inl e
      | Inr s' \<Rightarrow> Inr (exitFunc s'))"
  by (simp add: perform_all_append split: sum.splits)

lemma iterateThroughMember_calls:
  assumes "classes_compile x" and "reference T = LvalueReference"
  shows "(\<forall>ms names. x = Class ms names \<longrightarrow>
            (\<forall>s. iterateThroughMember T x (visit_lambda func enterFunc exitFunc) s =
              perform_all func enterFunc exitFunc (expected_calls T x) s))"
  using assms
proof (induction x arbitrary: T rule: measure_induct_rule[where f = size])
  case (less x)
  show ?case
  proof (intro allI impI)
    fix ms names s
    assume x: "x = Class ms names"
    from less.prems(1) x obtain r where acc: "REFLECTABLE names = Inr r"
      and sub: "set names \<subseteq> fst ` set ms"
      by (cases "REFLECTABLE names") auto
    have inner: "internal_visit func enterFunc exitFunc (deduce Lvalue True) v s' =
           perform_all func enterFunc exitFunc (Enter # expected_calls (deduce Lvalue True) v @ [Exit]) s'"
      if v: "map_of ms m = Some v" and c: "v = Class ms' names'" for m v ms' names' s'
    proof -
      have "size v < size x"
        using v x by (auto dest: size_member)
      moreover have "classes_compile v"
        using less.prems(1) v x classes_compile_member by blast
      moreover have "reference (deduce Lvalue True) = LvalueReference"
        by (simp add: deduce_def)
      ultimately have "\<And>s. iterateThroughMember (deduce Lvalue True) v
           (visit_lambda func enterFunc exitFunc) s =
          perform_all func enterFunc exitFunc (expected_calls (deduce Lvalue True) v) s"
        using less.IH[of v "deduce Lvalue True"] c by blast
      then show ?thesis
        by (subst internal_visit.simps) (simp only: perform_all_bracket)
    qed
    have "iterateThroughMember T x (visit_lambda func enterFunc exitFunc) s =
        forEach T (Class ms names) (visit_lambda func enterFunc exitFunc) [0..<length names] s"
      by (simp add: iterateThroughMember_def x getNumberOfFields_accepted[OF acc])
    also have "\<dots> = perform_all func enterFunc exitFunc (expected_calls T x) s"
      unfolding x expected_calls.simps
      by (rule forEach_calls[OF acc less.prems(2) sub inner]) auto
    finally show "iterateThroughMember T x (visit_lambda func enterFunc exitFunc) s =
        perform_all func enterFunc exitFunc (expected_calls T x) s" .
  qed
qed

lemma visit_hooks_calls:
  assumes "classes_compile x" and "isReflectable T x" and "reference T = LvalueReference"
    and "\<And>v. finds_internal_visit L v"
  shows "visit_hooks L func enterFunc exitFunc T x s =
    perform_all func enterFunc exitFunc (expected_calls T x) s"
proof -
  from assms(2) obtain ms names where "x = Class ms names"
    by (auto simp: isReflectable_iff)
  moreover have "(\<lambda>fieldData s.
                if isReflectable unqualified (type fieldData)
                then (if \<not> finds_internal_visit L (type fieldData) then Inl IllFormed
                      else (case get fieldData of
                              Inl e \<Rightarrow> Inl e
                            | Inr r \<Rightarrow> internal_visit func enterFunc exitFunc
                                        (deduce Lvalue (access r = ReadOnly)) (referent r) s))
                else func fieldData s) = visit_lambda func enterFunc exitFunc"
    using assms(4) by (intro ext) simp
  ultimately show ?thesis
    using iterateThroughMember_calls[OF assms(1,3), of func enterFunc exitFunc] assms(2)
    by (simp add: visit_hooks_def)
qed

lemma finds_internal_visit_visit_lookup: "finds_internal_visit visit_lookup v"
  by (simp add: finds_internal_visit_def visit_lookup_def)

lemma finds_internal_visit_prettyPrint_lookup: "finds_internal_visit prettyPrint_lookup v"
  by (simp add: finds_internal_visit_def prettyPrint_lookup_def)

lemma visit_calls:
  assumes "classes_compile x" and "isReflectable T x" and "reference T = LvalueReference"
  shows "visit_hooks visit_lookup func enterFunc exitFunc T x s =
    perform_all func enterFunc exitFunc (expected_calls T x) s"
  by (rule visit_hooks_calls[OF assms finds_internal_visit_visit_lookup])

lemma prettyPrint_calls:
  assumes "classes_compile x" and "isReflectable T x" and "reference T = LvalueReference"
  shows "visit_hooks prettyPrint_lookup func enterFunc exitFunc T x s =
    perform_all func enterFunc exitFunc (expected_calls T x) s"
  by (rule visit_hooks_calls[OF assms finds_internal_visit_prettyPrint_lookup])

lemma well_nested_append:
  assumes "well_nested k evs" and "well_nested d evs'"
  shows "well_nested (k + d) (evs @ evs')"
  using assms
proof (induction k evs rule: well_nested.induct)
  case (4 d' evs)
  then show ?case by (cases d') auto
qed auto

lemma well_nested_concat:
  assumes "\<And>i. i \<in> set ints \<Longrightarrow> well_nested 0 (F i)"
  shows "well_nested 0 (concat (map F ints))"
  using assms
proof (induction ints)
  case Nil
  then show ?case by simp
next
  case (Cons i ints)
  then have "well_nested 0 (F i)" and "well_nested 0 (concat (map F ints))"
    by auto
  from well_nested_append[OF this] show ?case by simp
qed

lemma well_nested_bracket:
  assumes "well_nested 0 evs"
  shows "well_nested 0 (Enter # evs @ [Exit])"
proof -
  have "well_nested (Suc 0) [Exit]" by simp
  from well_nested_append[OF assms this] show ?thesis by simp
qed

lemma well_nested_calls: "well_nested 0 (expected_calls T x)"
proof (induction T x rule: expected_calls.induct)
  case (1 T t)
  then show ?case by simp
next
  case (2 T ms names)
  show ?case
    unfolding expected_calls.simps
  proof (rule well_nested_concat)
    fix i
    assume i: "i \<in> set [0..<length names]"
    show "well_nested 0 (case map_of ms (names ! i) of
                         None \<Rightarrow> []
                       | Some v \<Rightarrow>
                           (case v of
                              Scalar t \<Rightarrow>
                                [Leaf \<lparr>N = i, Object = T, self = Class ms names,
                                       member_name = names ! i, member = v\<rparr>]
                            | Class ms' names' \<Rightarrow>
                                Enter # expected_calls (deduce Lvalue True) v @ [Exit]))"
    proof (cases "map_of ms (names ! i)")
      case None
      then show ?thesis by simp
    next
      case (Some v)
      show ?thesis
      proof (cases v)
        case (Scalar t)
        with Some show ?thesis by simp
      next
        case (Class ms' names')
        from "2.IH"[OF i Some Class] have "well_nested 0 (expected_calls (deduce Lvalue True) v)" .
        from well_nested_bracket[OF this] Some Class show ?thesis by simp
      qed
    qed
  qed
qed

lemma isl_REFLECTABLE_iff:
  "isl (REFLECTABLE names) = (names = [] \<or> 32 \<le> length names \<or> [] \<in> set names)"
  by (cases "names = [] \<or> 32 \<le> length names \<or> [] \<in> set names")
    (auto simp: REFLECTABLE_rejected REFLECTABLE_accepted not_le)

lemma leaves_of_append: "leaves_of (evs @ evs') = leaves_of evs @ leaves_of evs'"
  by (induction evs rule: leaves_of.induct) auto

lemma leaves_of_concat: "leaves_of (concat evss) = concat (map leaves_of evss)"
  by (induction evss) (auto simp: leaves_of_append)

lemma perform_all_without_hooks:
  "perform_all func (\<lambda>s. s) (\<lambda>s. s) evs s = call_each func (leaves_of evs) s"
  by (induction evs arbitrary: s rule: leaves_of.induct) (auto split: sum.splits)

lemma leaves_of_calls: "leaves_of (expected_calls T x) = expected_leaves T x"
proof (induction T x rule: expected_calls.induct)
  case (1 T t)
  then show ?case by simp
next
  case (2 T ms names)
  have "map (leaves_of \<circ> (\<lambda>i. case map_of ms (names ! i) of
                         None \<Rightarrow> []
                       | Some v \<Rightarrow>
                           (case v of
                              Scalar t \<Rightarrow>
                                [Leaf \<lparr>N = i, Object = T, self = Class ms names,
                                       member_name = names ! i, member = v\<rparr>]
                            | Class ms' names' \<Rightarrow>
                                Enter # expected_calls (deduce Lvalue True) v @ [Exit])))
          [0..<length names] =
        map (\<lambda>i. case map_of ms (names ! i) of
                         None \<Rightarrow> []
                       | Some v \<Rightarrow>
                           (case v of
                              Scalar t \<Rightarrow>
                                [\<lparr>N = i, Object = T, self = Class ms names,
                                  member_name = names ! i, member = v\<rparr>]
                            | Class ms' names' \<Rightarrow> expected_leaves (deduce Lvalue True) v))
          [0..<length names]"
  proof (rule map_cong[OF refl])
    fix i
    assume i: "i \<in> set [0..<length names]"
    show "(leaves_of \<circ> (\<lambda>i. case map_of ms (names ! i) of
                         None \<Rightarrow> []
                       | Some v \<Rightarrow>
                           (case v of
                              Scalar t \<Rightarrow>
                                [Leaf \<lparr>N = i, Object = T, self = Class ms names,
                                       member_name = names ! i, member = v\<rparr>]
                            | Class ms' names' \<Rightarrow>
                                Enter # expected_calls (deduce Lvalue True) v @ [Exit]))) i =
      (case map_of ms (names ! i) of
                         None \<Rightarrow> []
                       | Some v \<Rightarrow>
                           (case v of
                              Scalar t \<Rightarrow>
                                [\<lparr>N = i, Object = T, self = Class ms names,
                                  member_name = names ! i, member = v\<rparr>]
                            | Class ms' names' \<Rightarrow> expected_leaves (deduce Lvalue True) v))"
    proof (cases "map_of ms (names ! i)")
      case None
      then show ?thesis by simp
    next
      case (Some v)
      show ?thesis
      proof (cases v)
        case (Scalar t)
        with Some show ?thesis by simp
      next
        case (Class ms' names')
        from "2.IH"[OF i Some Class] Some Class show ?thesis
          by (simp add: leaves_of_append)
      qed
    qed
  qed
  then show ?case
    unfolding expected_calls.simps expected_leaves.simps leaves_of_concat map_map
    by (rule arg_cong)
qed

lemma perform_all_concat_printer:
  assumes "\<And>i d out. i \<in> set ints \<Longrightarrow>
      perform_all f e g (F i) \<lparr>recursionDepth = d, cout = out\<rparr> =
        Inr \<lparr>recursionDepth = d, cout = out @ G d i\<rparr>"
  shows "perform_all f e g (concat (map F ints)) \<lparr>recursionDepth = d, cout = out\<rparr> =
      Inr \<lparr>recursionDepth = d, cout = out @ concat (map (G d) ints)\<rparr>"
  using assms
proof (induction ints arbitrary: out)
  case Nil
  then show ?case by simp
next
  case (Cons i ints)
  have "perform_all f e g (F i) \<lparr>recursionDepth = d, cout = out\<rparr> =
        Inr \<lparr>recursionDepth = d, cout = out @ G d i\<rparr>"
    using Cons.prems by simp
  moreover have "perform_all f e g (concat (map F ints))
      \<lparr>recursionDepth = d, cout = out @ G d i\<rparr> =
      Inr \<lparr>recursionDepth = d, cout = (out @ G d i) @ concat (map (G d) ints)\<rparr>"
    using Cons.IH[of "out @ G d i"] Cons.prems by simp
  ultimately show ?case
    by (simp add: perform_all_append del: perform_all.simps)
qed

lemma perform_all_pretty:
  assumes "reference T = LvalueReference"
  shows "perform_all prettyPrint_func prettyPrint_enterFunc prettyPrint_exitFunc (expected_calls T x)
      \<lparr>recursionDepth = d, cout = out\<rparr> =
    Inr \<lparr>recursionDepth = d, cout = out @ expected_text d x\<rparr>"
  using assms
proof (induction T x arbitrary: d out rule: expected_calls.induct)
  case (1 T t)
  then show ?case by simp
next
  case (2 T ms names)
  show ?case
    unfolding expected_calls.simps expected_text.simps
  proof (rule perform_all_concat_printer)
    fix i d out
    assume i: "i \<in> set [0..<length names]"
    show "perform_all prettyPrint_func prettyPrint_enterFunc prettyPrint_exitFunc
        (case map_of ms (names ! i) of
           None \<Rightarrow> []
         | Some v \<Rightarrow>
             (case v of
                Scalar t \<Rightarrow>
                  [Leaf \<lparr>N = i, Object = T, self = Class ms names,
                         member_name = names ! i, member = v\<rparr>]
              | Class ms' names' \<Rightarrow> Enter # expected_calls (deduce Lvalue True) v @ [Exit]))
        \<lparr>recursionDepth = d, cout = out\<rparr> =
      Inr \<lparr>recursionDepth = d, cout = out @
        (case map_of ms (names ! i) of
           None \<Rightarrow> []
         | Some v \<Rightarrow>
             (case v of
                Scalar t \<Rightarrow> indent (d + 1) @ names ! i @ '' = '' @ t @ '',\<newline>''
              | Class ms' names' \<Rightarrow>
                  indent (d + 1) @ ''{\<newline>'' @ expected_text (d + 1) v @
                  indent (d + 1) @ ''},\<newline>''))\<rparr>"
    proof (cases "map_of ms (names ! i)")
      case None
      then show ?thesis by simp
    next
      case (Some v)
      show ?thesis
      proof (cases v)
        case (Scalar t)
        with Some "2.prems" show ?thesis
          by (simp add: prettyPrint_func_def get_def is_const_v_def name_def)
      next
        case (Class ms' names')
        have "reference (deduce Lvalue True) = LvalueReference"
          by (simp add: deduce_def)
        from "2.IH"[OF i Some Class this]
        have "perform_all prettyPrint_func prettyPrint_enterFunc prettyPrint_exitFunc
            (expected_calls (deduce Lvalue True) v)
            \<lparr>recursionDepth = d + 1, cout = out @ indent (d + 1) @ ''{\<newline>''\<rparr> =
          Inr \<lparr>recursionDepth = d + 1,
               cout = (out @ indent (d + 1) @ ''{\<newline>'') @ expected_text (d + 1) v\<rparr>" .
        then show ?thesis
          using Some Class
          by (simp add: perform_all_bracket prettyPrint_enterFunc_def prettyPrint_exitFunc_def
              Let_def del: perform_all.simps)
      qed
    qed
  qed
qed

lemma forEach_rejected:
  assumes "getFieldData i T x = Inr fd" and "i \<in> set ints" and "\<And>s. isl (callback fd s)"
  shows "isl (forEach T x callback ints s)"
  using assms(2)
proof (induction ints arbitrary: s)
  case Nil
  then show ?case by simp
next
  case (Cons j ints)
  show ?case
  proof (cases "j = i")
    case True
    with assms(1) assms(3)[of s] show ?thesis
      by (cases "callback fd s") auto
  next
    case False
    with Cons.prems have "i \<in> set ints" by simp
    from Cons.IH[OF this] show ?thesis
      by (auto split: sum.splits)
  qed
qed

lemma call_each_succeeds:
  assumes "\<And>fd s. fd \<in> set fds \<Longrightarrow> \<not> isl (func fd s)"
  shows "\<not> isl (call_each func fds s)"
  using assms
proof (induction fds arbitrary: s)
  case Nil
  then show ?case by simp
next
  case (Cons fd fds)
  from Cons.prems[of fd s] obtain s' where s': "func fd s = Inr s'"
    by (cases "func fd s") auto
  have "\<not> isl (call_each func fds s')"
    using Cons.prems by (intro Cons.IH) simp
  with s' show ?case
    by simp
qed

text \<open>Where the lookup of \<^verbatim>\<open>_internal_visit\<close> succeeds, the calls of a visit with hooks
  are the expected ones, and they are well nested.\<close>

lemma calls_when_lookup_succeeds:
  assumes "classes_compile x" and "isReflectable T x" and "reference T = LvalueReference"
    and "\<And>v. finds_internal_visit L v"
  shows "visit_hooks L func enterFunc exitFunc T x s =
      perform_all func enterFunc exitFunc (expected_calls T x) s \<and>
    well_nested 0 (expected_calls T x)"
  using visit_hooks_calls[OF assms] well_nested_calls by simp

lemma call_each_nothing: "call_each (\<lambda>fieldData s. Inr s) fds s = Inr s"
  by (induction fds) auto

text \<open>The scenario of \<open>R1\<close> and \<open>R2\<close> with functors of namespace \<^verbatim>\<open>reflection\<close>.\<close>

lemma scenario_calls_when_lookup_succeeds:
  "visit_hooks prettyPrint_lookup
       (\<lambda>fieldData s. Inr (s @ [''leaf('' @ name fieldData @ '')'']))
       (\<lambda>s. s @ [''enter()'']) (\<lambda>s. s @ [''exit()'']) (deduce Lvalue False) R1 [] =
     Inr [''leaf(a)'', ''enter()'', ''leaf(c)'', ''leaf(d)'', ''exit()'']"
proof -
  have c: "classes_compile R1"
    by (simp add: R1_def R2_def isl_REFLECTABLE_iff)
  have r: "isReflectable (deduce Lvalue False) R1"
    by (simp add: R1_def isReflectable_iff)
  have l: "reference (deduce Lvalue False) = LvalueReference"
    by (simp add: deduce_def)
  have "expected_calls (deduce Lvalue False) R1 =
    [Leaf \<lparr>N = 0, Object = deduce Lvalue False, self = R1, member_name = ''a'',
           member = Scalar ''1''\<rparr>,
     Enter,
     Leaf \<lparr>N = 0, Object = deduce Lvalue True, self = R2, member_name = ''c'',
           member = Scalar ''2''\<rparr>,
     Leaf \<lparr>N = 1, Object = deduce Lvalue True, self = R2, member_name = ''d'',
           member = Scalar ''3''\<rparr>,
     Exit]"
    by (simp add: R1_def R2_def expected_calls.simps upt_rec)
  then show ?thesis
    by (simp add: prettyPrint_calls[OF c r l] name_def)
qed

section \<open>The claims\<close>

text \<open>
  C1. A descriptor's \<open>get()\<close> returns a read-only reference for a read-only instance and
  a mutable one for a mutable instance. In the code the overload that returns a reference
  to non-const is the one constrained by \<^verbatim>\<open>requires(std::is_const_v<Object>)\<close>, and
  \<^verbatim>\<open>Object\<close> is a reference type for every instance a descriptor can be made of, so every
  descriptor, also one of a mutable instance, returns a reference to const.
\<close>

theorem get_returns_reference_to_const:
  assumes "getFieldData i T x = Inr fd"
  shows "\<exists>r. get fd = Inr r \<and> access r = ReadOnly"
proof -
  from assms have "reference T = LvalueReference" and "Object fd = T"
    by (auto simp: getFieldData_def split: if_splits sum.splits option.splits token.splits)
  then show ?thesis
    by (simp add: get_def is_const_v_def)
qed

theorem get_returns_reference_to_const_witness:
  "getFieldData 0 (deduce Lvalue False) (Point ''0'' ''0'') =
     Inr \<lparr>N = 0, Object = deduce Lvalue False, self = Point ''0'' ''0'',
          member_name = ''x'', member = Scalar ''0''\<rparr> \<and>
   get \<lparr>N = 0, Object = deduce Lvalue False, self = Point ''0'' ''0'',
        member_name = ''x'', member = Scalar ''0''\<rparr> =
     Inr \<lparr>access = ReadOnly, designated = ''x'', referent = Scalar ''0''\<rparr>"
proof -
  have fd: "getFieldData 0 (deduce Lvalue False) (Point ''0'' ''0'') =
     Inr \<lparr>N = 0, Object = deduce Lvalue False, self = Point ''0'' ''0'',
          member_name = ''x'', member = Scalar ''0''\<rparr>"
    by (simp add: Point_def getFieldData_accepted[OF REFLECTABLE_x_y] deduce_def)
  from get_returns_reference_to_const[OF fd] fd show ?thesis
    by (auto simp: get_def is_const_v_def deduce_def)
qed

text \<open>
  C2. The declaration takes up to 32 fields and rejects more. In the code the assertion is
  \<^verbatim>\<open>static_assert(_reflection_fields_n < 32, ...)\<close>, so a declaration of exactly 32 fields
  is rejected as well, with the message that says "more than 32": every argument list of
  length 32 fails that assertion.
\<close>

theorem thirty_two_fields_rejected:
  assumes "length names = 32"
  shows "REFLECTABLE names =
    Inl (StaticAssertFailed ''Reflection does not support more than 32 data members.'')"
proof -
  from assms have "names \<noteq> []" by auto
  with assms show ?thesis
    by (simp add: REFLECTABLE_def COUNT_ARGS_nonempty)
qed

theorem thirty_two_fields_rejected_witness:
  "length thirty_two_names = 32 \<and>
   REFLECTABLE thirty_two_names =
     Inl (StaticAssertFailed ''Reflection does not support more than 32 data members.'')"
proof -
  have len: "length thirty_two_names = 32"
    by (simp add: thirty_two_names_def)
  from len thirty_two_fields_rejected[OF len] show ?thesis by simp
qed

text \<open>
  C3, as stated: a declaration of zero fields is accepted, its field count is 0 and a
  visit makes no call. In the code \<^verbatim>\<open>COUNT_ARGS()\<close> is 1, and the one specialisation that
  \<^verbatim>\<open>REFLECTABLE()\<close> generates has no member name, so the class is rejected.
\<close>

theorem zero_fields_counterexample:
  "COUNT_ARGS [] = Inr (Num 1) \<and>
   REFLECTABLE [] = Inl IllFormed \<and>
   getNumberOfFields (deduce Lvalue False) (Class [] []) = Inl IllFormed \<and>
   visit (\<lambda>fieldData n. Inr (Suc n)) (deduce Lvalue False) (Class [] []) (0::nat) = Inl IllFormed"
proof -
  have r: "REFLECTABLE [] = Inl IllFormed"
    by (simp add: REFLECTABLE_def COUNT_ARGS_empty APPLY_MACRO_TO_EACH_empty REFLECT_EACH_def)
  then show ?thesis
    by (simp add: COUNT_ARGS_empty getNumberOfFields_def query_getNumberOfFields_def
        remove_cvref_t_def visit_def visit_hooks_def isReflectable_def reflectable_def
        iterateThroughMember_def)
qed

text \<open>
  C3, amended: a declaration that is accepted names at least one field, and the field
  count the query returns is at least 1.
\<close>

theorem accepted_declaration_has_a_field:
  assumes "getNumberOfFields T (Class ms names) = Inr n"
  shows "names \<noteq> [] \<and> 1 \<le> n"
proof -
  from assms obtain r where r: "REFLECTABLE names = Inr r" and n: "n = reflection_fields_n r"
    by (auto simp: getNumberOfFields_def query_getNumberOfFields_def
        split: if_splits sum.splits)
  from REFLECTABLE_InrD[OF r] n show ?thesis
    by (cases names) auto
qed

theorem accepted_declaration_has_a_field_witness:
  "getNumberOfFields (deduce Lvalue False) (Point ''0'' ''0'') = Inr 2 \<and>
   [''x'', ''y''] \<noteq> [] \<and> (1::int) \<le> 2"
proof -
  have q: "getNumberOfFields (deduce Lvalue False)
             (Class [(''x'', Scalar ''0''), (''y'', Scalar ''0'')] [''x'', ''y'']) = Inr 2"
    by (simp add: getNumberOfFields_def query_getNumberOfFields_def remove_cvref_t_def
        REFLECTABLE_x_y)
  from q accepted_declaration_has_a_field[OF q] show ?thesis
    by (simp add: Point_def)
qed

text \<open>
  C4. For a reflectable type whose class definitions compile and an instance passed as
  an lvalue, a visit without hooks calls the leaf callback on the leaf fields of the
  instance, once each and in the order of \<open>expected_leaves\<close>: for the ordinals of the declaration in
  ascending order, it recurses into the value of a field whose type is reflectable and
  calls the callback on the descriptor of any other field.
\<close>

theorem visit_calls_each_leaf_once_in_order:
  assumes "classes_compile x" and "isReflectable T x" and "reference T = LvalueReference"
  shows "visit func T x s = call_each func (expected_leaves T x) s"
  by (simp add: visit_def visit_calls[OF assms] perform_all_without_hooks leaves_of_calls)

theorem visit_calls_each_leaf_once_in_order_witness:
  "classes_compile Points \<and> isReflectable (deduce Lvalue True) Points \<and>
   reference (deduce Lvalue True) = LvalueReference \<and>
   visit (\<lambda>fieldData s. Inr (s @ [(N fieldData, name fieldData, member fieldData)]))
       (deduce Lvalue True) Points [] =
     Inr [(0, ''x'', Scalar ''1''), (1, ''y'', Scalar ''2''),
          (0, ''x'', Scalar ''3''), (1, ''y'', Scalar ''4''),
          (0, ''x'', Scalar ''5''), (1, ''y'', Scalar ''6'')]"
proof -
  have c: "classes_compile Points"
    by (simp add: Points_def Point_def isl_REFLECTABLE_iff)
  have r: "isReflectable (deduce Lvalue True) Points"
    by (simp add: Points_def isReflectable_iff)
  have l: "reference (deduce Lvalue True) = LvalueReference"
    by (simp add: deduce_def)
  have "map (\<lambda>fd. (N fd, name fd, member fd)) (expected_leaves (deduce Lvalue True) Points) =
     [(0, ''x'', Scalar ''1''), (1, ''y'', Scalar ''2''),
      (0, ''x'', Scalar ''3''), (1, ''y'', Scalar ''4''),
      (0, ''x'', Scalar ''5''), (1, ''y'', Scalar ''6'')]"
    by (simp add: Points_def Point_def expected_leaves.simps upt_rec name_def)
  moreover have "call_each (\<lambda>fieldData s. Inr (s @ [(N fieldData, name fieldData, member fieldData)]))
      fds acc = Inr (acc @ map (\<lambda>fd. (N fd, name fd, member fd)) fds)" for fds acc
    by (induction fds arbitrary: acc) auto
  ultimately show ?thesis
    using c r l visit_calls_each_leaf_once_in_order[OF c r l,
      of "\<lambda>fieldData s. Inr (s @ [(N fieldData, name fieldData, member fieldData)])" "[]"]
    by simp
qed

text \<open>
  C5. With hooks, a visit calls the leaf callback for the leaves, and the enter hook
  before and the exit hook after the calls for each composite field; for \<open>R1\<close> with the
  scalar field \<open>a\<close> and the field \<open>b\<close> of type \<open>R2\<close> the calls are leaf(a), enter(),
  leaf(c), leaf(d), exit(). In the code the lambda of \<^verbatim>\<open>visit\<close> calls \<^verbatim>\<open>_internal_visit\<close>
  before it is declared. A visit with hooks whose functors and whose composite field's
  class all lie outside namespace \<^verbatim>\<open>reflection\<close> is therefore rejected by the compiler:
  from such code no hook is ever called. (Where the lookup succeeds the calls are the
  expected ones, see \<open>calls_when_lookup_succeeds\<close>.)
\<close>

theorem hooks_of_user_code_rejected:
  assumes "classes_compile (Class ms names)" and "reference T = LvalueReference"
    and "i < length names" and "map_of ms (names ! i) = Some (Class ms' names')"
    and "\<not> finds_internal_visit L (Class ms' names')"
  shows "isl (visit_hooks L func enterFunc exitFunc T (Class ms names) s)"
proof -
  from assms(1) obtain r where acc: "REFLECTABLE names = Inr r"
    by (cases "REFLECTABLE names") auto
  have fd: "getFieldData i T (Class ms names) =
      Inr \<lparr>N = i, Object = T, self = Class ms names, member_name = names ! i,
           member = Class ms' names'\<rparr>"
    using assms(2,3,4) by (simp add: getFieldData_accepted[OF acc])
  have "isl (forEach T (Class ms names)
      (\<lambda>fieldData s.
         if isReflectable unqualified (type fieldData)
         then (if \<not> finds_internal_visit L (type fieldData) then Inl IllFormed
               else (case get fieldData of
                       Inl e \<Rightarrow> Inl e
                     | Inr r \<Rightarrow> internal_visit func enterFunc exitFunc
                                 (deduce Lvalue (access r = ReadOnly)) (referent r) s))
         else func fieldData s)
      [0..<length names] s)"
    using fd
  proof (rule forEach_rejected)
    show "i \<in> set [0..<length names]"
      using assms(3) by simp
  next
    fix s'
    show "isl (if isReflectable unqualified
                 (type \<lparr>N = i, Object = T, self = Class ms names, member_name = names ! i,
                        member = Class ms' names'\<rparr>)
         then (if \<not> finds_internal_visit L
                      (type \<lparr>N = i, Object = T, self = Class ms names,
                             member_name = names ! i, member = Class ms' names'\<rparr>)
               then Inl IllFormed
               else (case get \<lparr>N = i, Object = T, self = Class ms names,
                               member_name = names ! i, member = Class ms' names'\<rparr> of
                       Inl e \<Rightarrow> Inl e
                     | Inr r \<Rightarrow> internal_visit func enterFunc exitFunc
                                 (deduce Lvalue (access r = ReadOnly)) (referent r) s'))
         else func \<lparr>N = i, Object = T, self = Class ms names, member_name = names ! i,
                    member = Class ms' names'\<rparr> s')"
      using assms(5) by (simp add: isReflectable_iff type_def)
  qed
  then show ?thesis
    by (simp add: visit_hooks_def isReflectable_iff iterateThroughMember_def
        getNumberOfFields_accepted[OF acc])
qed

theorem hooks_of_user_code_rejected_witness:
  "classes_compile R1 \<and> reference (deduce Lvalue False) = LvalueReference \<and>
   (1::nat) < length [''a'', ''b''] \<and>
   map_of [(''a'', Scalar ''1''), (''b'', R2)] ([''a'', ''b''] ! 1) = Some R2 \<and>
   \<not> finds_internal_visit user_code R2 \<and>
   isl (visit_hooks user_code
          (\<lambda>fieldData s. Inr (s @ [''leaf('' @ name fieldData @ '')'']))
          (\<lambda>s. s @ [''enter()'']) (\<lambda>s. s @ [''exit()'']) (deduce Lvalue False) R1 []) \<and>
   visit_hooks user_code
          (\<lambda>fieldData s. Inr (s @ [''leaf('' @ name fieldData @ '')'']))
          (\<lambda>s. s @ [''enter()'']) (\<lambda>s. s @ [''exit()'']) (deduce Lvalue False) R1 []
     = Inl IllFormed"
proof -
  have ab: "REFLECTABLE [''a'', ''b''] =
      Inr \<lparr>reflection_fields_n = 2,
           FieldData = [\<lparr>index = 0, dataMember = Ident ''a''\<rparr>,
                        \<lparr>index = 1, dataMember = Ident ''b''\<rparr>]\<rparr>"
    by (simp add: REFLECTABLE_accepted specialisations_def REFLECT_EACH_def upt_rec)
  have e: "visit_hooks user_code
          (\<lambda>fieldData s. Inr (s @ [''leaf('' @ name fieldData @ '')'']))
          (\<lambda>s. s @ [''enter()'']) (\<lambda>s. s @ [''exit()'']) (deduce Lvalue False) R1 []
     = Inl IllFormed"
    by (simp add: R1_def R2_def visit_hooks_def isReflectable_iff iterateThroughMember_def
        getNumberOfFields_accepted[OF ab] getFieldData_accepted[OF ab] deduce_def upt_rec
        type_def finds_internal_visit_def user_code_def)
  have c: "classes_compile (Class [(''a'', Scalar ''1''), (''b'', R2)] [''a'', ''b''])"
    by (simp add: R2_def isl_REFLECTABLE_iff)
  have l: "reference (deduce Lvalue False) = LvalueReference"
    by (simp add: deduce_def)
  have i: "(1::nat) < length [''a'', ''b'']"
    by simp
  have m: "map_of [(''a'', Scalar ''1''), (''b'', R2)] ([''a'', ''b''] ! 1) =
      Some (Class [(''c'', Scalar ''2''), (''d'', Scalar ''3'')] [''c'', ''d''])"
    by (simp add: R2_def)
  have n: "\<not> finds_internal_visit user_code
      (Class [(''c'', Scalar ''2''), (''d'', Scalar ''3'')] [''c'', ''d''])"
    by (simp add: finds_internal_visit_def user_code_def)
  from hooks_of_user_code_rejected[OF c l i m n,
      of "\<lambda>fieldData s. Inr (s @ [''leaf('' @ name fieldData @ '')''])"
         "\<lambda>s. s @ [''enter()'']" "\<lambda>s. s @ [''exit()'']" "[]"] c l m n e
  show ?thesis
    by (simp add: R1_def R2_def)
qed

text \<open>
  C6, as stated: a leaf line is indented by depth times the unit, the depth being 0 at
  the top level. In the code the leaf lambda writes \<^verbatim>\<open>recursionDepth + 1\<close> units: the
  fields of the top-level instance stand inside the outer braces, indented by one unit.
\<close>

theorem leaf_indentation_counterexample:
  "prettyPrint (deduce Lvalue False) (Point ''0'' ''0'') [] =
     Inr ''{\<newline>    x = 0,\<newline>    y = 0,\<newline>}\<newline>'' \<and>
   map_sum id cout
     (prettyPrint_func
        \<lparr>N = 0, Object = deduce Lvalue False, self = Point ''0'' ''0'',
         member_name = ''x'', member = Scalar ''0''\<rparr>
        \<lparr>recursionDepth = 0, cout = []\<rparr>) = Inr ''    x = 0,\<newline>'' \<and>
   claimed_leaf_line 0 ''x'' ''0'' = ''x = 0,\<newline>''"
proof -
  have c: "classes_compile (Point ''0'' ''0'')"
    by (simp add: Point_def isl_REFLECTABLE_iff)
  have r: "isReflectable (deduce Lvalue False) (Point ''0'' ''0'')"
    by (simp add: Point_def isReflectable_iff)
  have l: "reference (deduce Lvalue False) = LvalueReference"
    by (simp add: deduce_def)
  have "prettyPrint (deduce Lvalue False) (Point ''0'' ''0'') [] =
     Inr ''{\<newline>    x = 0,\<newline>    y = 0,\<newline>}\<newline>''"
    using r
    by (simp add: prettyPrint_def prettyPrint_calls[OF c r l] perform_all_pretty[OF l])
      (simp add: Point_def expected_text.simps upt_rec indent_def)
  moreover have "map_sum id cout
     (prettyPrint_func
        \<lparr>N = 0, Object = deduce Lvalue False, self = Point ''0'' ''0'',
         member_name = ''x'', member = Scalar ''0''\<rparr>
        \<lparr>recursionDepth = 0, cout = []\<rparr>) = Inr ''    x = 0,\<newline>''"
    by (simp add: prettyPrint_func_def get_def is_const_v_def deduce_def name_def indent_def)
  moreover have "claimed_leaf_line 0 ''x'' ''0'' = ''x = 0,\<newline>''"
    by (simp add: claimed_leaf_line_def indent_def)
  ultimately show ?thesis by simp
qed

text \<open>
  C6, amended, for a reflectable type whose class definitions compile and an instance
  passed as an lvalue: with the depth 0 at the top level, incremented by each \<open>enterFunc\<close> and
  decremented by each \<open>exitFunc\<close>, a leaf line \<open>name = value,\<close> is indented by depth + 1
  units of four spaces; a composite field is wrapped in a line \<open>{\<close> and a line \<open>},\<close>
  indented like the leaf lines beside it, with its own fields one unit deeper; after the
  block of a composite field the depth, and so the indentation, is that of the enclosing
  level again; and the whole output stands between \<open>{\<close> and \<open>}\<close> lines that are not
  indented.
\<close>

theorem prettyPrint_output:
  assumes "classes_compile x" and "isReflectable T x" and "reference T = LvalueReference"
  shows "visit_hooks prettyPrint_lookup
        prettyPrint_func prettyPrint_enterFunc prettyPrint_exitFunc T x
        \<lparr>recursionDepth = d, cout = out\<rparr> =
      Inr \<lparr>recursionDepth = d, cout = out @ expected_text d x\<rparr> \<and>
    prettyPrint T x out = Inr (out @ ''{\<newline>'' @ expected_text 0 x @ ''}\<newline>'')"
  using assms(2)
  by (simp add: prettyPrint_def prettyPrint_calls[OF assms] perform_all_pretty[OF assms(3)])

theorem prettyPrint_output_witness:
  "classes_compile R0 \<and> isReflectable (deduce Lvalue False) R0 \<and>
   reference (deduce Lvalue False) = LvalueReference \<and>
   prettyPrint (deduce Lvalue False) R0 [] =
     Inr (''{\<newline>'' @
          ''    {\<newline>'' @
          ''        a = 1,\<newline>'' @
          ''        {\<newline>'' @
          ''            c = 2,\<newline>'' @
          ''            d = 3,\<newline>'' @
          ''        },\<newline>'' @
          ''    },\<newline>'' @
          ''    z = 9,\<newline>'' @
          ''}\<newline>'')"
proof -
  have c: "classes_compile R0"
    by (simp add: R0_def R1_def R2_def isl_REFLECTABLE_iff)
  have r: "isReflectable (deduce Lvalue False) R0"
    by (simp add: R0_def isReflectable_iff)
  have l: "reference (deduce Lvalue False) = LvalueReference"
    by (simp add: deduce_def)
  have "expected_text 0 R0 =
          ''    {\<newline>'' @
          ''        a = 1,\<newline>'' @
          ''        {\<newline>'' @
          ''            c = 2,\<newline>'' @
          ''            d = 3,\<newline>'' @
          ''        },\<newline>'' @
          ''    },\<newline>'' @
          ''    z = 9,\<newline>''"
    by (simp add: R0_def R1_def R2_def expected_text.simps upt_rec indent_def eval_nat_numeral)
  with c r l prettyPrint_output[OF c r l, of 0 "[]"] show ?thesis
    by simp
qed

text \<open>
  C7. For a reflectable type declared with the field names \<open>names\<close>, the field-count query
  returns their number. A descriptor exists exactly for the ordinals below that number
  (given an lvalue of a class that has the named members), and the \<open>name()\<close> of the
  descriptor for ordinal \<open>i\<close> is the \<open>i\<close>-th name of the declaration. Queries are functions
  of the type and the ordinal, so repeating one gives the same answer.
\<close>

theorem field_count_and_names:
  assumes "REFLECTABLE names = Inr r"
  shows "getNumberOfFields T (Class ms names) = Inr (int (length names)) \<and>
    (\<forall>i fd. getFieldData i T (Class ms names) = Inr fd \<longrightarrow>
       i < length names \<and> name fd = names ! i) \<and>
    (\<forall>i < length names. reference T = LvalueReference \<longrightarrow> names ! i \<in> fst ` set ms \<longrightarrow>
       (\<exists>fd. getFieldData i T (Class ms names) = Inr fd \<and> name fd = names ! i))"
proof (intro conjI allI impI)
  show "getNumberOfFields T (Class ms names) = Inr (int (length names))"
    by (simp add: getNumberOfFields_def getNumberOfFields_accepted[OF assms])
next
  fix i fd
  assume "getFieldData i T (Class ms names) = Inr fd"
  then show "i < length names" and "name fd = names ! i"
    by (auto simp: getFieldData_accepted[OF assms] name_def split: if_splits option.splits)
next
  fix i
  assume i: "i < length names" and T: "reference T = LvalueReference"
    and m: "names ! i \<in> fst ` set ms"
  from m obtain v where "map_of ms (names ! i) = Some v"
    by (cases "map_of ms (names ! i)") (auto simp: map_of_eq_None_iff)
  with i T show "\<exists>fd. getFieldData i T (Class ms names) = Inr fd \<and> name fd = names ! i"
    by (simp add: getFieldData_accepted[OF assms] name_def)
qed

theorem field_count_and_names_witness:
  "REFLECTABLE [''x'', ''y''] =
     Inr \<lparr>reflection_fields_n = 2,
          FieldData = [\<lparr>index = 0, dataMember = Ident ''x''\<rparr>,
                       \<lparr>index = 1, dataMember = Ident ''y''\<rparr>]\<rparr> \<and>
   getNumberOfFields (deduce Lvalue True) (Point ''5'' ''10'') = Inr 2 \<and>
   map_sum id name (getFieldData 0 (deduce Lvalue True) (Point ''5'' ''10'')) = Inr ''x'' \<and>
   map_sum id name (getFieldData 1 (deduce Lvalue True) (Point ''5'' ''10'')) = Inr ''y'' \<and>
   getFieldData 2 (deduce Lvalue True) (Point ''5'' ''10'') = Inl IllFormed"
proof -
  note th = field_count_and_names[OF REFLECTABLE_x_y,
      of "deduce Lvalue True" "[(''x'', Scalar ''5''), (''y'', Scalar ''10'')]"]
  have n: "getNumberOfFields (deduce Lvalue True) (Point ''5'' ''10'') = Inr 2"
    using th by (simp add: Point_def)
  have "\<exists>fd. getFieldData 0 (deduce Lvalue True) (Point ''5'' ''10'') = Inr fd \<and> name fd = ''x''"
    using th[THEN conjunct2, THEN conjunct2, THEN spec, of 0]
    by (simp add: Point_def deduce_def)
  then have x: "map_sum id name (getFieldData 0 (deduce Lvalue True) (Point ''5'' ''10'')) = Inr ''x''"
    by auto
  have "\<exists>fd. getFieldData 1 (deduce Lvalue True) (Point ''5'' ''10'') = Inr fd \<and> name fd = ''y''"
    using th[THEN conjunct2, THEN conjunct2, THEN spec, of 1]
    by (simp add: Point_def deduce_def)
  then have y: "map_sum id name (getFieldData 1 (deduce Lvalue True) (Point ''5'' ''10'')) = Inr ''y''"
    by auto
  have z: "getFieldData 2 (deduce Lvalue True) (Point ''5'' ''10'') = Inl IllFormed"
    by (simp add: Point_def getFieldData_def remove_cvref_t_def REFLECTABLE_x_y)
  from REFLECTABLE_x_y n x y z show ?thesis by simp
qed

text \<open>
  C8, as stated: a visit or a print of a type that is not reflectable is rejected
  statically, and for a type that passes this check the traversal of any instance
  completes. A type can pass the check and the traversal still be rejected by the
  compiler: a class whose declaration names \<open>y\<close>, which is not one of its data members,
  is reflectable, and so is \<open>Point\<close> when the instance is a temporary, but \<^verbatim>\<open>print\<close> of
  either does not compile.
\<close>

theorem reflectable_but_rejected_counterexample:
  "isReflectable (deduce Lvalue False) Misnamed \<and>
   print (deduce Lvalue False) Misnamed () = Inl IllFormed \<and>
   isReflectable (deduce Rvalue False) (Point ''0'' ''0'') \<and>
   print (deduce Rvalue False) (Point ''0'' ''0'') () = Inl IllFormed"
proof -
  have y: "REFLECTABLE [''y''] =
      Inr \<lparr>reflection_fields_n = 1, FieldData = [\<lparr>index = 0, dataMember = Ident ''y''\<rparr>]\<rparr>"
    by (simp add: REFLECTABLE_accepted specialisations_def REFLECT_EACH_def)
  have "print (deduce Lvalue False) Misnamed () = Inl IllFormed"
    by (simp add: Misnamed_def print_def visit_def visit_hooks_def isReflectable_iff
        iterateThroughMember_def getNumberOfFields_accepted[OF y]
        getFieldData_accepted[OF y])
  moreover have "print (deduce Rvalue False) (Point ''0'' ''0'') () = Inl IllFormed"
    by (simp add: Point_def print_def visit_def visit_hooks_def isReflectable_iff
        iterateThroughMember_def getNumberOfFields_accepted[OF REFLECTABLE_x_y]
        getFieldData_accepted[OF REFLECTABLE_x_y] deduce_def upt_rec)
  ultimately show ?thesis
    by (simp add: Misnamed_def Point_def isReflectable_iff)
qed

text \<open>
  C8, amended: a visit (with or without hooks), a \<open>print\<close> or a \<open>prettyPrint\<close> of an
  object whose type is not reflectable is rejected by the \<^verbatim>\<open>static_assert\<close> whose message
  says that the class is not reflectable. For a reflectable type whose class definitions
  compile, with every declared name a data member, and an instance passed as an lvalue,
  \<open>print\<close> returns, and a visit without hooks returns whenever the instantiations of its
  leaf callback for the leaf fields are well-formed. The results are functions of the
  arguments, and every failure is a rejection by the compiler.
\<close>

theorem not_reflectable_rejected_compiled_traversal_completes:
  "(\<not> isReflectable T x \<longrightarrow>
      visit_hooks L func enterFunc exitFunc T x s = Inl not_reflectable \<and>
      visit func T x s = Inl not_reflectable \<and>
      print T x s = Inl not_reflectable \<and>
      prettyPrint T x out = Inl not_reflectable) \<and>
   (isReflectable T x \<and> classes_compile x \<and> reference T = LvalueReference \<longrightarrow>
      print T x s = Inr s \<and>
      ((\<forall>fd \<in> set (expected_leaves T x). \<forall>s. \<not> isl (func fd s)) \<longrightarrow>
         (\<exists>s'. visit func T x s = Inr s')))"
proof (intro conjI impI)
  assume "\<not> isReflectable T x"
  then show "visit_hooks L func enterFunc exitFunc T x s = Inl not_reflectable"
    and "visit func T x s = Inl not_reflectable"
    and "print T x s = Inl not_reflectable"
    and "prettyPrint T x out = Inl not_reflectable"
    by (simp_all add: visit_hooks_def visit_def print_def prettyPrint_def not_reflectable_def)
next
  assume a: "isReflectable T x \<and> classes_compile x \<and> reference T = LvalueReference"
  then have r: "isReflectable T x" and c: "classes_compile x"
    and l: "reference T = LvalueReference"
    by auto
  have v: "visit f T x s = call_each f (expected_leaves T x) s" for f
    by (simp add: visit_def visit_calls[OF c r l] perform_all_without_hooks leaves_of_calls)
  show "print T x s = Inr s"
    using r by (simp add: print_def v call_each_nothing)
  assume "\<forall>fd \<in> set (expected_leaves T x). \<forall>s. \<not> isl (func fd s)"
  then have "\<not> isl (call_each func (expected_leaves T x) s)"
    by (intro call_each_succeeds) simp
  then show "\<exists>s'. visit func T x s = Inr s'"
    unfolding v by (cases "call_each func (expected_leaves T x) s") auto
qed

theorem not_reflectable_rejected_compiled_traversal_completes_witness:
  "\<not> isReflectable (deduce Lvalue False) (Scalar ''1'') \<and>
   visit_hooks user_code (\<lambda>fieldData n. Inr (Suc n)) (\<lambda>n. n) (\<lambda>n. n)
     (deduce Lvalue False) (Scalar ''1'') (0::nat) = Inl not_reflectable \<and>
   visit (\<lambda>fieldData n. Inr (Suc n)) (deduce Lvalue False) (Scalar ''1'') (0::nat)
     = Inl not_reflectable \<and>
   print (deduce Lvalue False) (Scalar ''1'') (0::nat) = Inl not_reflectable \<and>
   prettyPrint (deduce Lvalue False) (Scalar ''1'') [] = Inl not_reflectable \<and>
   isReflectable (deduce Lvalue False) R1 \<and> classes_compile R1 \<and>
   reference (deduce Lvalue False) = LvalueReference \<and>
   print (deduce Lvalue False) R1 (0::nat) = Inr 0 \<and>
   (\<exists>n. visit (\<lambda>fieldData n. Inr (Suc n)) (deduce Lvalue False) R1 (0::nat) = Inr n)"
proof -
  have n: "\<not> isReflectable (deduce Lvalue False) (Scalar ''1'')"
    by (simp add: isReflectable_iff)
  have c: "classes_compile R1"
    by (simp add: R1_def R2_def isl_REFLECTABLE_iff)
  have r: "isReflectable (deduce Lvalue False) R1"
    by (simp add: R1_def isReflectable_iff)
  have l: "reference (deduce Lvalue False) = LvalueReference"
    by (simp add: deduce_def)
  note no = not_reflectable_rejected_compiled_traversal_completes[
      of "deduce Lvalue False" "Scalar ''1''" user_code
      "\<lambda>fieldData n. Inr (Suc n)" "\<lambda>n. n" "\<lambda>n. n" "0::nat" "[]",
      THEN conjunct1, rule_format, OF n]
  note yes = not_reflectable_rejected_compiled_traversal_completes[
      of "deduce Lvalue False" R1 user_code
      "\<lambda>fieldData n. Inr (Suc n)" "\<lambda>n. n" "\<lambda>n. n" "0::nat" "[]",
      THEN conjunct2, rule_format, OF conjI[OF r conjI[OF c l]]]
  from n c r l no yes show ?thesis
    by simp
qed

text \<open>
  C9. The reflectability query and the field-count query give the same answer for a type
  whatever its const and reference qualification: both go through
  \<^verbatim>\<open>std::remove_cvref_t<T>\<close>.
\<close>

theorem queries_ignore_cvref:
  "isReflectable T x = isReflectable T' x \<and> getNumberOfFields T x = getNumberOfFields T' x"
  by (simp add: isReflectable_def reflectable_def getNumberOfFields_def
      query_getNumberOfFields_def remove_cvref_t_def)

text \<open>
  C10. The pointer to member a descriptor returns, applied to the instance the descriptor
  was made of, designates the member that the descriptor's \<open>get()\<close> refers to, and holds
  the same value.
\<close>

theorem pointer_to_member_agrees_with_get:
  assumes "getFieldData i T x = Inr fd" and "get fd = Inr r"
  shows "apply_pointer_to_member x (getPointerToMember fd) = Some (designated r, referent r)"
proof -
  from assms(1) have "map_of (members x) (member_name fd) = Some (member fd)"
    by (cases x)
      (auto simp: getFieldData_def split: if_splits sum.splits option.splits token.splits)
  moreover from assms(2) have "designated r = member_name fd" "referent r = member fd"
    by (auto simp: get_def split: if_splits)
  ultimately show ?thesis
    by (simp add: getPointerToMember_def)
qed

theorem pointer_to_member_agrees_with_get_witness:
  "getFieldData 1 (deduce Lvalue True) (Point ''5'' ''10'') =
     Inr \<lparr>N = 1, Object = deduce Lvalue True, self = Point ''5'' ''10'',
          member_name = ''y'', member = Scalar ''10''\<rparr> \<and>
   get \<lparr>N = 1, Object = deduce Lvalue True, self = Point ''5'' ''10'',
        member_name = ''y'', member = Scalar ''10''\<rparr> =
     Inr \<lparr>access = ReadOnly, designated = ''y'', referent = Scalar ''10''\<rparr> \<and>
   apply_pointer_to_member (Point ''5'' ''10'')
     (getPointerToMember \<lparr>N = 1, Object = deduce Lvalue True, self = Point ''5'' ''10'',
        member_name = ''y'', member = Scalar ''10''\<rparr>) = Some (''y'', Scalar ''10'')"
proof -
  have fd: "getFieldData 1 (deduce Lvalue True) (Point ''5'' ''10'') =
     Inr \<lparr>N = 1, Object = deduce Lvalue True, self = Point ''5'' ''10'',
          member_name = ''y'', member = Scalar ''10''\<rparr>"
    by (simp add: Point_def getFieldData_accepted[OF REFLECTABLE_x_y] deduce_def)
  have r: "get \<lparr>N = 1, Object = deduce Lvalue True, self = Point ''5'' ''10'',
        member_name = ''y'', member = Scalar ''10''\<rparr> =
     Inr \<lparr>access = ReadOnly, designated = ''y'', referent = Scalar ''10''\<rparr>"
    by (simp add: get_def is_const_v_def deduce_def)
  from pointer_to_member_agrees_with_get[OF fd r] fd r show ?thesis by simp
qed

end
